theory Spec2Isabelle
  imports Complex_Main "HOL-Library.Word" "HOL-Library.Log_Nat"
begin

section \<open>PoissonQuad: field names\<close>

text \<open>
  The name queries of \<^verbatim>\<open>PoissonQuad\<close> return a \<^verbatim>\<open>const char*\<close>; the null pointer is
  \<open>None\<close>. The index is a C++ \<^verbatim>\<open>int\<close>.
\<close>

definition elementName :: "string" where
  "elementName = ''PoissonQuad''"

definition displacementName :: "int \<Rightarrow> string option" where
  "displacementName i = Some ''phi''"

definition stressName :: "int \<Rightarrow> string option" where
  "stressName i = (if i = 0 then Some ''px'' else if i = 1 then Some ''py'' else None)"

definition strainName :: "int \<Rightarrow> string option" where
  "strainName i = (if i = 0 then Some ''px'' else if i = 1 then Some ''py'' else None)"

definition extraName :: "int \<Rightarrow> string option" where
  "extraName i = None"

section \<open>Scalars, arrays and the element library\<close>

text \<open>
  \<^verbatim>\<open>TacsScalar\<close> is \<^verbatim>\<open>double\<close> in the real build of the library. The kernels are written
  over a scalar type \<open>'a\<close> with the operations \<open>0\<close>, \<open>1\<close>, \<open>+\<close>, \<open>-\<close>, \<open>*\<close> and \<open>/\<close> and
  nothing assumed about them, so that one text of a kernel serves two readings: at the
  type \<open>double\<close> of the IEEE numbers (section \<open>Double precision\<close>), where every operation
  rounds, it is the code as it runs; at the type \<open>real\<close> it is the same computation in
  exact arithmetic. A C array handed over as a pointer is the function from index to
  entry; a kernel that accumulates into a buffer returns the updated buffer.
\<close>

type_synonym 'a buffer = "nat \<Rightarrow> 'a"

type_synonym TacsScalar = real

type_synonym array = "real buffer"

text \<open>
  The element calls three routines of \<^verbatim>\<open>FElibrary\<close>, which is declared outside the files
  at hand. The kernels take them as a parameter: the Gauss tables handed back by
  \<^verbatim>\<open>getGaussPtsWts(order, &pts, &wts)\<close>, the two overloads of \<^verbatim>\<open>lagrangeSFKnots\<close> (values;
  values and derivatives) and \<^verbatim>\<open>jacobian2d\<close> (determinant returned, inverse written to
  \<^verbatim>\<open>J\<close>).
\<close>

record 'a FElibrary =
  lib_getGaussPtsWts :: "nat \<Rightarrow> 'a buffer \<times> 'a buffer"
  lib_lagrangeSFKnots :: "'a \<Rightarrow> 'a buffer \<Rightarrow> nat \<Rightarrow> 'a buffer"
  lib_lagrangeSFKnots_deriv :: "'a \<Rightarrow> 'a buffer \<Rightarrow> nat \<Rightarrow> 'a buffer \<times> 'a buffer"
  lib_jacobian2d :: "'a \<times> 'a \<times> 'a \<times> 'a \<Rightarrow> 'a \<times> ('a \<times> 'a \<times> 'a \<times> 'a)"

section \<open>PoissonQuad: the element\<close>

text \<open>
  The template parameter \<^verbatim>\<open>order\<close> and the two private arrays \<^verbatim>\<open>f[order*order]\<close> and
  \<^verbatim>\<open>knots[order]\<close>.
\<close>

record 'a PoissonQuad =
  pq_order :: nat
  pq_f :: "'a buffer"
  pq_knots :: "'a buffer"

text \<open>
  The constructor copies the source term and sets the knots: \<open>-1, 1\<close> for order 2,
  \<open>-1, 0, 1\<close> for order 3, and a cosine spacing otherwise. \<^verbatim>\<open>order-1\<close> is an \<^verbatim>\<open>int\<close>
  subtraction, \<^verbatim>\<open>M_PI\<close> is \<open>pi\<close>. Entries of an array that the code never writes are 0
  here; no kernel reads them. For order 1 the quotient is \<open>0 / 0\<close>: the one knot is not a
  number in the code and \<open>-1\<close> here, and the interpolation over a single knot never
  computes with it.
\<close>

definition PoissonQuad :: "nat \<Rightarrow> array \<Rightarrow> real PoissonQuad" where
  "PoissonQuad order' f' =
     \<lparr> pq_order = order',
       pq_f = fold (\<lambda>i a. a(i := f' i)) [0..<order' * order'] (\<lambda>_. 0),
       pq_knots =
         (if order' = 2 then (\<lambda>_. 0)(0 := -1, 1 := 1)
          else if order' = 3 then (\<lambda>_. 0)(0 := -1, 1 := 0, 2 := 1)
          else fold (\<lambda>k a. a(k := - cos (pi * real k / real_of_int (int order' - 1))))
                 [0..<order'] (\<lambda>_. 0)) \<rparr>"

definition numDisplacements :: "int" where
  "numDisplacements = 1"

definition numNodes :: "'a PoissonQuad \<Rightarrow> nat" where
  "numNodes el = pq_order el * pq_order el"

definition numStresses :: "int" where
  "numStresses = 2"

definition numExtras :: "int" where
  "numExtras = 0"

definition getNumGaussPts :: "'a PoissonQuad \<Rightarrow> nat" where
  "getNumGaussPts el = pq_order el * pq_order el"

text \<open>
  \<^verbatim>\<open>getShapeFunctions\<close>, first overload: the tensor product of the two one-dimensional
  bases, written through the moving pointer \<^verbatim>\<open>N++\<close> (the offset \<open>p\<close>). The caller's array
  \<^verbatim>\<open>N\<close> is a local one without initial content; all its \<open>order * order\<close> entries are
  written.
\<close>

definition getShapeFunctions ::
  "'a FElibrary \<Rightarrow> 'a PoissonQuad \<Rightarrow> 'a \<times> 'a \<Rightarrow> ('a::{zero,times}) buffer" where
  "getShapeFunctions lib el pt =
     (let na = lib_lagrangeSFKnots lib (fst pt) (pq_knots el) (pq_order el);
          nb = lib_lagrangeSFKnots lib (snd pt) (pq_knots el) (pq_order el)
      in fst (fold (\<lambda>j. fold (\<lambda>i (N, p). (N(p := na i * nb j), Suc p)) [0..<pq_order el])
                [0..<pq_order el] (\<lambda>_. 0, 0)))"

text \<open>Second overload: values and the two parametric derivatives.\<close>

definition getShapeFunctions_deriv ::
  "'a FElibrary \<Rightarrow> 'a PoissonQuad \<Rightarrow> 'a \<times> 'a
     \<Rightarrow> ('a::{zero,times}) buffer \<times> 'a buffer \<times> 'a buffer" where
  "getShapeFunctions_deriv lib el pt =
     (let (na, dna) = lib_lagrangeSFKnots_deriv lib (fst pt) (pq_knots el) (pq_order el);
          (nb, dnb) = lib_lagrangeSFKnots_deriv lib (snd pt) (pq_knots el) (pq_order el);
          (N, Na, Nb, p) =
            fold (\<lambda>j. fold (\<lambda>i (N, Na, Nb, p).
                    (N(p := na i * nb j), Na(p := dna i * nb j), Nb(p := na i * dnb j), Suc p))
                  [0..<pq_order el])
              [0..<pq_order el] (\<lambda>_. 0, \<lambda>_. 0, \<lambda>_. 0, 0)
      in (N, Na, Nb))"

definition getJacobianTransform ::
  "'a PoissonQuad \<Rightarrow> 'a buffer \<Rightarrow> 'a buffer \<Rightarrow> 'a buffer
     \<Rightarrow> ('a::{zero,plus,times}) \<times> 'a \<times> 'a \<times> 'a" where
  "getJacobianTransform el Na Nb Xpts =
     fold (\<lambda>i (Xd0, Xd1, Xd2, Xd3).
             (Xd0 + Na i * Xpts (3 * i), Xd1 + Nb i * Xpts (3 * i),
              Xd2 + Na i * Xpts (3 * i + 1), Xd3 + Nb i * Xpts (3 * i + 1)))
       [0..<pq_order el * pq_order el] (0, 0, 0, 0)"

definition getDetJacobian ::
  "'a FElibrary \<Rightarrow> 'a PoissonQuad \<Rightarrow> 'a \<times> 'a \<Rightarrow> 'a buffer \<Rightarrow> ('a::{zero,plus,minus,times})" where
  "getDetJacobian lib el pt Xpts =
     (let (N, Na, Nb) = getShapeFunctions_deriv lib el pt;
          (Xd0, Xd1, Xd2, Xd3) = getJacobianTransform el Na Nb Xpts
      in Xd0 * Xd3 - Xd1 * Xd2)"

subsection \<open>The residual\<close>

text \<open>
  The body of the two quadrature loops of \<^verbatim>\<open>addResidual\<close> at the point \<open>(m, n)\<close>, and the
  loops. \<^verbatim>\<open>time\<close>, \<^verbatim>\<open>dvars\<close> and \<^verbatim>\<open>ddvars\<close> are arguments the body never reads.
\<close>

definition addResidual_point ::
  "'a FElibrary \<Rightarrow> 'a PoissonQuad \<Rightarrow> 'a buffer \<Rightarrow> 'a buffer \<Rightarrow> nat \<Rightarrow> nat
     \<Rightarrow> ('a::{zero,plus,minus,times}) buffer \<Rightarrow> 'a buffer" where
  "addResidual_point lib el Xpts vars m n res =
     (let (pts, wts) = lib_getGaussPtsWts lib (pq_order el);
          pt = (pts n, pts m);
          (N, Na, Nb) = getShapeFunctions_deriv lib el pt;
          Xd = getJacobianTransform el Na Nb Xpts;
          (h0, J0, J1, J2, J3) = lib_jacobian2d lib Xd;
          h = h0 * (wts n * wts m);
          (fval, px, py) =
            fold (\<lambda>i (fval, px, py).
                    (fval + N i * pq_f el i,
                     px + (Na i * J0 + Nb i * J2) * vars i,
                     py + (Na i * J1 + Nb i * J3) * vars i))
              [0..<pq_order el * pq_order el] (0, 0, 0)
      in fold (\<lambda>i r. r(i := r i + h * ((Na i * J0 + Nb i * J2) * px
                                        + (Na i * J1 + Nb i * J3) * py - fval * N i)))
           [0..<pq_order el * pq_order el] res)"

definition addResidual ::
  "'a FElibrary \<Rightarrow> 'a PoissonQuad \<Rightarrow> 'a \<Rightarrow> 'a buffer \<Rightarrow> 'a buffer \<Rightarrow> 'a buffer
     \<Rightarrow> 'a buffer \<Rightarrow> 'a buffer \<Rightarrow> ('a::{zero,plus,minus,times}) buffer" where
  "addResidual lib el time res Xpts vars dvars ddvars =
     fold (\<lambda>m. fold (\<lambda>n. addResidual_point lib el Xpts vars m n) [0..<pq_order el])
       [0..<pq_order el] res"

subsection \<open>The Jacobian\<close>

text \<open>
  \<^verbatim>\<open>h *= alpha*wts[n]*wts[m]\<close>; the entry written is \<^verbatim>\<open>mat[i + j*order*order]\<close>.
\<close>

definition addJacobian_point ::
  "'a FElibrary \<Rightarrow> 'a PoissonQuad \<Rightarrow> 'a \<Rightarrow> 'a buffer \<Rightarrow> nat \<Rightarrow> nat
     \<Rightarrow> ('a::{zero,plus,times}) buffer \<Rightarrow> 'a buffer" where
  "addJacobian_point lib el alpha Xpts m n mat =
     (let (pts, wts) = lib_getGaussPtsWts lib (pq_order el);
          pt = (pts n, pts m);
          (N, Na, Nb) = getShapeFunctions_deriv lib el pt;
          Xd = getJacobianTransform el Na Nb Xpts;
          (h0, J0, J1, J2, J3) = lib_jacobian2d lib Xd;
          h = h0 * (alpha * wts n * wts m)
      in fold (\<lambda>j. fold (\<lambda>i a.
                 a(i + j * pq_order el * pq_order el :=
                     a (i + j * pq_order el * pq_order el)
                     + h * ((Na i * J0 + Nb i * J2) * (Na j * J0 + Nb j * J2)
                            + (Na i * J1 + Nb i * J3) * (Na j * J1 + Nb j * J3))))
               [0..<pq_order el * pq_order el])
           [0..<pq_order el * pq_order el] mat)"

definition addJacobian ::
  "'a FElibrary \<Rightarrow> 'a PoissonQuad \<Rightarrow> 'a \<Rightarrow> 'a buffer \<Rightarrow> 'a \<Rightarrow> 'a \<Rightarrow> 'a \<Rightarrow>
     'a buffer \<Rightarrow> 'a buffer \<Rightarrow> 'a buffer \<Rightarrow> 'a buffer \<Rightarrow> ('a::{zero,plus,times}) buffer" where
  "addJacobian lib el time mat alpha beta gamma Xpts vars dvars ddvars =
     fold (\<lambda>m. fold (\<lambda>n. addJacobian_point lib el alpha Xpts m n) [0..<pq_order el])
       [0..<pq_order el] mat"

subsection \<open>The localized error\<close>

text \<open>
  The bilinear weights \<^verbatim>\<open>Nerr[0..3]\<close> of \<^verbatim>\<open>addLocalizedError\<close> at the quadrature point,
  the scalar \<^verbatim>\<open>product\<close> of the point \<open>(m, n)\<close>, the body of the two loops and the loops.
  The corner indices \<^verbatim>\<open>order-1\<close>, \<^verbatim>\<open>order*(order-1)\<close> and \<^verbatim>\<open>order*order-1\<close> are computed in
  the body, which runs only when \<open>order \<ge> 1\<close>.
\<close>

definition Nerr :: "real \<times> real \<Rightarrow> real \<times> real \<times> real \<times> real" where
  "Nerr pt =
     (0.25 * (1 - fst pt) * (1 - snd pt),
      0.25 * (1 + fst pt) * (1 - snd pt),
      0.25 * (1 - fst pt) * (1 + snd pt),
      0.25 * (1 + fst pt) * (1 + snd pt))"

definition addLocalizedError_product ::
  "real FElibrary \<Rightarrow> real PoissonQuad \<Rightarrow> array \<Rightarrow> array \<Rightarrow> array \<Rightarrow> nat \<Rightarrow> nat \<Rightarrow> real" where
  "addLocalizedError_product lib el adjoint Xpts vars m n =
     (let (pts, wts) = lib_getGaussPtsWts lib (pq_order el);
          pt = (pts n, pts m);
          (N, Na, Nb) = getShapeFunctions_deriv lib el pt;
          Xd = getJacobianTransform el Na Nb Xpts;
          (h0, J0, J1, J2, J3) = lib_jacobian2d lib Xd;
          h = h0 * (wts n * wts m);
          (fval, adj, px, py, ax, ay) =
            fold (\<lambda>i (fval, adj, px, py, ax, ay).
                    (let Nx = Na i * J0 + Nb i * J2;
                         Ny = Na i * J1 + Nb i * J3
                     in (fval + N i * pq_f el i, adj + N i * adjoint i,
                         px + Nx * vars i, py + Ny * vars i,
                         ax + Nx * adjoint i, ay + Ny * adjoint i)))
              [0..<pq_order el * pq_order el] (0, 0, 0, 0, 0, 0)
      in h * (ax * px + ay * py - adj * fval))"

definition addLocalizedError_point ::
  "real FElibrary \<Rightarrow> real PoissonQuad \<Rightarrow> array \<Rightarrow> array \<Rightarrow> array \<Rightarrow> nat \<Rightarrow> nat
     \<Rightarrow> array \<Rightarrow> array" where
  "addLocalizedError_point lib el adjoint Xpts vars m n err =
     (let (pts, wts) = lib_getGaussPtsWts lib (pq_order el);
          pt = (pts n, pts m);
          product = addLocalizedError_product lib el adjoint Xpts vars m n;
          (Nerr0, Nerr1, Nerr2, Nerr3) = Nerr pt;
          order' = pq_order el;
          err1 = err(0 := err 0 + Nerr0 * product);
          err2 = err1(order' - 1 := err1 (order' - 1) + Nerr1 * product);
          err3 = err2(order' * (order' - 1) := err2 (order' * (order' - 1)) + Nerr2 * product)
      in err3(order' * order' - 1 := err3 (order' * order' - 1) + Nerr3 * product))"

definition addLocalizedError ::
  "real FElibrary \<Rightarrow> real PoissonQuad \<Rightarrow> real \<Rightarrow> array \<Rightarrow> array \<Rightarrow> array \<Rightarrow> array
     \<Rightarrow> array" where
  "addLocalizedError lib el time err adjoint Xpts vars =
     fold (\<lambda>m. fold (\<lambda>n. addLocalizedError_point lib el adjoint Xpts vars m n) [0..<pq_order el])
       [0..<pq_order el] err"

subsection \<open>Output topology\<close>

text \<open>
  The counters, the base node and the entries of \<^verbatim>\<open>con\<close> are C++ \<^verbatim>\<open>int\<close>s: 32 bits, two's
  complement. Signed overflow, which the language leaves undefined, is the wrap-around the
  machine does. The loop counters \<^verbatim>\<open>m\<close> and \<^verbatim>\<open>n\<close> run below \<^verbatim>\<open>order-1\<close>, an \<^verbatim>\<open>int\<close>
  subtraction. \<^verbatim>\<open>getOutputConnectivity\<close> writes four entries of \<^verbatim>\<open>con\<close> per
  sub-quadrilateral at the indices \<^verbatim>\<open>4*p\<close> to \<^verbatim>\<open>4*p+3\<close>, themselves \<^verbatim>\<open>int\<close>s, and counts in
  \<^verbatim>\<open>p\<close>; the loop is given with its final \<open>p\<close>.
\<close>

type_synonym c_int = "32 word"

definition addOutputCount :: "'a PoissonQuad \<Rightarrow> c_int \<times> c_int \<times> c_int \<Rightarrow> c_int \<times> c_int \<times> c_int" where
  "addOutputCount el c =
     (case c of (nelems, nnodes, ncsr) \<Rightarrow>
        (nelems + (of_nat (pq_order el) - 1) * (of_nat (pq_order el) - 1),
         nnodes + of_nat (pq_order el) * of_nat (pq_order el),
         ncsr + 4 * (of_nat (pq_order el) - 1) * (of_nat (pq_order el) - 1)))"

definition getOutputConnectivity_loop ::
  "'a PoissonQuad \<Rightarrow> (nat \<Rightarrow> c_int) \<Rightarrow> c_int \<Rightarrow> (nat \<Rightarrow> c_int) \<times> c_int" where
  "getOutputConnectivity_loop el con node =
     fold (\<lambda>m. fold (\<lambda>n (c, p).
             (c(unat (4 * p) := node + of_nat n + of_nat m * of_nat (pq_order el),
                unat (4 * p + 1) := node + of_nat n + 1 + of_nat m * of_nat (pq_order el),
                unat (4 * p + 2) := node + of_nat n + 1 + (of_nat m + 1) * of_nat (pq_order el),
                unat (4 * p + 3) := node + of_nat n + (of_nat m + 1) * of_nat (pq_order el)),
              p + 1))
           [0..<nat (int (pq_order el) - 1)])
       [0..<nat (int (pq_order el) - 1)] (con, 0)"

definition getOutputConnectivity :: "'a PoissonQuad \<Rightarrow> (nat \<Rightarrow> c_int) \<Rightarrow> c_int \<Rightarrow> (nat \<Rightarrow> c_int)" where
  "getOutputConnectivity el con node = fst (getOutputConnectivity_loop el con node)"

section \<open>The element library, from the specification\<close>

text \<open>
  Modelled from the spec: \<^verbatim>\<open>FElibrary::lagrangeSFKnots\<close> (first overload), which is not in the
  files at hand. The basis is the Lagrange interpolation over the knot vector: the
  \<open>i\<close>-th function is the product over the other knots \<open>j\<close> of
  \<open>(a - knots j) / (knots i - knots j)\<close>.
\<close>

definition lagrangeSFKnots ::
  "'a \<Rightarrow> 'a buffer \<Rightarrow> nat \<Rightarrow> ('a::{zero,one,minus,times,inverse}) buffer" where
  "lagrangeSFKnots a knots order' =
     fold (\<lambda>i sf. sf(i :=
             fold (\<lambda>j s. if i \<noteq> j then s * ((a - knots j) / (knots i - knots j)) else s)
               [0..<order'] 1))
       [0..<order'] (\<lambda>_. 0)"

text \<open>
  Modelled from the spec: \<^verbatim>\<open>FElibrary::lagrangeSFKnots\<close> (second overload), the same basis
  with its derivative in \<open>a\<close>, carried through the product by the product rule.
\<close>

definition lagrangeSFKnots_deriv ::
  "'a \<Rightarrow> 'a buffer \<Rightarrow> nat \<Rightarrow> ('a::{zero,one,plus,minus,times,inverse}) buffer \<times> 'a buffer" where
  "lagrangeSFKnots_deriv a knots order' =
     fold (\<lambda>i (sf, dsf).
             (case fold (\<lambda>j (s, ds).
                     if i \<noteq> j
                     then (s * ((a - knots j) / (knots i - knots j)),
                           ds * ((a - knots j) / (knots i - knots j)) + s * (1 / (knots i - knots j)))
                     else (s, ds))
                   [0..<order'] (1, 0)
              of (s, ds) \<Rightarrow> (sf(i := s), dsf(i := ds))))
       [0..<order'] (\<lambda>_. 0, \<lambda>_. 0)"

text \<open>
  Modelled from the spec: \<^verbatim>\<open>FElibrary::jacobian2d\<close>, the determinant and the inverse of the
  2 by 2 matrix \<open>Xd\<close> stored by rows. The spec leaves a zero determinant to the caller;
  here the division is HOL's.
\<close>

definition jacobian2d ::
  "'a \<times> 'a \<times> 'a \<times> 'a \<Rightarrow> ('a::{one,minus,uminus,times,inverse}) \<times> ('a \<times> 'a \<times> 'a \<times> 'a)" where
  "jacobian2d Xd =
     (case Xd of (Xd0, Xd1, Xd2, Xd3) \<Rightarrow>
        (let h = Xd0 * Xd3 - Xd1 * Xd2;
             hinv = 1 / h
         in (h, (Xd3 * hinv, - Xd1 * hinv, - Xd2 * hinv, Xd0 * hinv))))"

text \<open>
  Modelled from the spec: the two-point Gauss-Legendre rule, the table that
  \<^verbatim>\<open>FElibrary::getGaussPtsWts\<close> hands to an element of order 2: points \<open>- 1 / sqrt 3\<close> and \<open>1 / sqrt 3\<close>,
  weights 1.
\<close>

definition gauss2PtsWts :: "array \<times> array" where
  "gauss2PtsWts = ((\<lambda>_. 0)(0 := - (1 / sqrt 3), 1 := 1 / sqrt 3), (\<lambda>_. 0)(0 := 1, 1 := 1))"

text \<open>
  Modelled from the spec: the three-point Gauss-Legendre rule, the table for an element of
  order 3: points \<open>- sqrt (3 / 5)\<close>, \<open>0\<close> and \<open>sqrt (3 / 5)\<close>, weights \<open>5 / 9\<close>, \<open>8 / 9\<close>
  and \<open>5 / 9\<close>.
\<close>

definition gauss3PtsWts :: "array \<times> array" where
  "gauss3PtsWts =
     ((\<lambda>_. 0)(0 := - sqrt (3 / 5), 1 := 0, 2 := sqrt (3 / 5)),
      (\<lambda>_. 0)(0 := 5 / 9, 1 := 8 / 9, 2 := 5 / 9))"

text \<open>The library with these routines; the Gauss tables stay a parameter.\<close>

definition FElibrary_model ::
  "(nat \<Rightarrow> 'a buffer \<times> 'a buffer) \<Rightarrow> ('a::{zero,one,plus,minus,uminus,times,inverse}) FElibrary" where
  "FElibrary_model tables =
     \<lparr> lib_getGaussPtsWts = tables,
       lib_lagrangeSFKnots = lagrangeSFKnots,
       lib_lagrangeSFKnots_deriv = lagrangeSFKnots_deriv,
       lib_jacobian2d = jacobian2d \<rparr>"

text \<open>An array given by its entries.\<close>

definition array_of :: "('a::zero) list \<Rightarrow> 'a buffer" where
  "array_of xs = (\<lambda>i. if i < length xs then xs ! i else 0)"

section \<open>Double precision\<close>

text \<open>
  The IEEE 754 binary64 numbers, as far as the kernels use them: a finite value (the real
  number it stands for; \<open>Finite 0\<close> is \<open>+0\<close>), the negative zero, the two infinities and one
  not-a-number (its sign and payload are not kept). Every operation computes the exact
  result and rounds it once, to the nearest representable number, ties to the even
  mantissa: a product and a sum are two roundings, never a fused one, and nothing is
  kept in a wider format. The values that \<open>rnd\<close> and the operations return are
  representable; \<open>Finite x\<close> itself is written for any real \<open>x\<close>.
\<close>

datatype double = Finite real | MinusZero | PlusInfinity | MinusInfinity | NaN

fun valof :: "double \<Rightarrow> real" where
  "valof (Finite x) = x"
| "valof MinusZero = 0"
| "valof PlusInfinity = 0"
| "valof MinusInfinity = 0"
| "valof NaN = 0"

fun is_finite :: "double \<Rightarrow> bool" where
  "is_finite (Finite x) = True"
| "is_finite MinusZero = True"
| "is_finite PlusInfinity = False"
| "is_finite MinusInfinity = False"
| "is_finite NaN = False"

fun is_infinite :: "double \<Rightarrow> bool" where
  "is_infinite (Finite x) = False"
| "is_infinite MinusZero = False"
| "is_infinite PlusInfinity = True"
| "is_infinite MinusInfinity = True"
| "is_infinite NaN = False"

fun is_zero :: "double \<Rightarrow> bool" where
  "is_zero (Finite x) = (x = 0)"
| "is_zero MinusZero = True"
| "is_zero PlusInfinity = False"
| "is_zero MinusInfinity = False"
| "is_zero NaN = False"

fun signbit :: "double \<Rightarrow> bool" where
  "signbit (Finite x) = (x < 0)"
| "signbit MinusZero = True"
| "signbit PlusInfinity = False"
| "signbit MinusInfinity = True"
| "signbit NaN = False"

definition zero_of_sign :: "bool \<Rightarrow> double" where
  "zero_of_sign s = (if s then MinusZero else Finite 0)"

definition infinity_of_sign :: "bool \<Rightarrow> double" where
  "infinity_of_sign s = (if s then MinusInfinity else PlusInfinity)"

text \<open>The nearest integer, a tie going to the even one.\<close>

definition round_even :: "real \<Rightarrow> int" where
  "round_even q =
     (let f = \<lfloor>q\<rfloor>
      in if q - of_int f < 1 / 2 then f
         else if 1 / 2 < q - of_int f then f + 1
         else if even f then f else f + 1)"

text \<open>
  The binary exponent of a real \<open>x \<noteq> 0\<close>, the \<open>e\<close> with \<open>2\<^sup>e \<le> \<bar>x\<bar> < 2\<^sup>e\<^sup>+\<^sup>1\<close>, from the bit
  length of an integer.
\<close>

definition expo :: "real \<Rightarrow> int" where
  "expo x = (if 1 \<le> \<bar>x\<bar> then bitlen \<lfloor>\<bar>x\<bar>\<rfloor> - 1 else - bitlen (\<lceil>1 / \<bar>x\<bar>\<rceil> - 1))"

text \<open>
  Rounding of a real \<open>x \<noteq> 0\<close>: 53 bits of mantissa, the exponent from \<open>-1022\<close> to \<open>1023\<close>.
  Below \<open>2\<^sup>-\<^sup>1\<^sup>0\<^sup>2\<^sup>2\<close> the spacing stays \<open>2\<^sup>-\<^sup>1\<^sup>0\<^sup>7\<^sup>4\<close> (gradual underflow, down to a zero with the sign
  of \<open>x\<close>); a result of magnitude \<open>2\<^sup>1\<^sup>0\<^sup>2\<^sup>4\<close> or more is the infinity of that sign.
\<close>

definition rnd :: "real \<Rightarrow> double" where
  "rnd x =
     (let e = max (expo x) (- 1022);
          u = 2 powi (e - 52);
          y = of_int (round_even (x / u)) * u
      in if 2 powi 1024 \<le> \<bar>y\<bar> then infinity_of_sign (x < 0)
         else if y = 0 then zero_of_sign (x < 0)
         else Finite y)"

text \<open>
  The operations. An exact sum \<open>x + y = 0\<close> is \<open>-0\<close> only when both operands are \<open>-0\<close>;
  \<open>x - y\<close> is \<open>x + (-y)\<close>; a product or quotient with a zero or an infinity
  takes the sign of the operands; \<open>0 * \<infinity>\<close>, \<open>\<infinity> - \<infinity>\<close>, \<open>0 / 0\<close>, \<open>\<infinity> / \<infinity>\<close> and the root of a
  negative number are not numbers.
\<close>

definition fneg :: "double \<Rightarrow> double" where
  "fneg a =
     (case a of
        Finite x \<Rightarrow> if x = 0 then MinusZero else Finite (- x)
      | MinusZero \<Rightarrow> Finite 0
      | PlusInfinity \<Rightarrow> MinusInfinity
      | MinusInfinity \<Rightarrow> PlusInfinity
      | NaN \<Rightarrow> NaN)"

definition fadd :: "double \<Rightarrow> double \<Rightarrow> double" where
  "fadd a b =
     (if a = NaN \<or> b = NaN then NaN
      else if is_infinite a then (if is_infinite b \<and> a \<noteq> b then NaN else a)
      else if is_infinite b then b
      else if valof a + valof b = 0
        then (if signbit a \<and> signbit b then MinusZero else Finite 0)
      else rnd (valof a + valof b))"

definition fmul :: "double \<Rightarrow> double \<Rightarrow> double" where
  "fmul a b =
     (if a = NaN \<or> b = NaN then NaN
      else if (is_infinite a \<and> is_zero b) \<or> (is_zero a \<and> is_infinite b) then NaN
      else if is_infinite a \<or> is_infinite b then infinity_of_sign (signbit a \<noteq> signbit b)
      else if is_zero a \<or> is_zero b then zero_of_sign (signbit a \<noteq> signbit b)
      else rnd (valof a * valof b))"

definition fdiv :: "double \<Rightarrow> double \<Rightarrow> double" where
  "fdiv a b =
     (if a = NaN \<or> b = NaN then NaN
      else if is_infinite a
        then (if is_infinite b then NaN else infinity_of_sign (signbit a \<noteq> signbit b))
      else if is_infinite b then zero_of_sign (signbit a \<noteq> signbit b)
      else if is_zero b
        then (if is_zero a then NaN else infinity_of_sign (signbit a \<noteq> signbit b))
      else if is_zero a then zero_of_sign (signbit a \<noteq> signbit b)
      else rnd (valof a / valof b))"

text \<open>\<^verbatim>\<open>sqrt\<close> of the C library, correctly rounded as IEEE 754 requires.\<close>

definition fsqrt :: "double \<Rightarrow> double" where
  "fsqrt a =
     (case a of
        Finite x \<Rightarrow> if x < 0 then NaN else if x = 0 then Finite 0 else rnd (sqrt x)
      | MinusZero \<Rightarrow> MinusZero
      | PlusInfinity \<Rightarrow> PlusInfinity
      | MinusInfinity \<Rightarrow> NaN
      | NaN \<Rightarrow> NaN)"

text \<open>The operators of the kernels at the type \<open>double\<close>.\<close>

instantiation double :: "{zero, one, plus, minus, uminus, times, inverse}"
begin

definition zero_double :: double where
  "zero_double = Finite 0"

definition one_double :: double where
  "one_double = Finite 1"

definition plus_double :: "double \<Rightarrow> double \<Rightarrow> double" where
  "plus_double = fadd"

definition uminus_double :: "double \<Rightarrow> double" where
  "uminus_double = fneg"

definition minus_double :: "double \<Rightarrow> double \<Rightarrow> double" where
  "minus_double a b = fadd a (fneg b)"

definition times_double :: "double \<Rightarrow> double \<Rightarrow> double" where
  "times_double = fmul"

definition divide_double :: "double \<Rightarrow> double \<Rightarrow> double" where
  "divide_double = fdiv"

definition inverse_double :: "double \<Rightarrow> double" where
  "inverse_double a = fdiv (Finite 1) a"

instance ..

end

text \<open>
  The unit roundoff \<open>2\<^sup>-\<^sup>5\<^sup>3\<close>, and the magnitudes at which a result is rounded with this
  relative error: neither subnormal nor overflowing.
\<close>

definition macheps :: real where
  "macheps = 2 powi (- 53)"

definition normal_range :: "real \<Rightarrow> bool" where
  "normal_range x \<longleftrightarrow> 2 powi (- 1022) \<le> \<bar>x\<bar> \<and> \<bar>x\<bar> \<le> 2 powi 1023"

section \<open>TACSBeamConstitutive\<close>

text \<open>
  The object holds the reference axis \<^verbatim>\<open>axis[3]\<close>, the stiffness \<^verbatim>\<open>C[]\<close> and the density
  terms \<^verbatim>\<open>rho[4]\<close>. The axis, which the code computes with, is kept in double precision;
  the stiffness and the density terms are taken at the real numbers.
\<close>

type_synonym vec3 = "double \<times> double \<times> double"

record TACSBeamConstitutive =
  bc_axis :: vec3
  bc_C :: array
  bc_rho :: array

text \<open>
  Modelled from the spec: \<^verbatim>\<open>NUM_TANGENT_STIFFNESS_ENTRIES\<close>, declared in the header that is
  not in the files at hand: the entries of a symmetric 6 by 6 operator, 21 (the constructor
  writes \<^verbatim>\<open>C[0]\<close> to \<^verbatim>\<open>C[20]\<close>).
\<close>

definition NUM_TANGENT_STIFFNESS_ENTRIES :: nat where
  "NUM_TANGENT_STIFFNESS_ENTRIES = 21"

text \<open>
  The block \<^emph>\<open>Set the reference axis and normalize it\<close>, which the two property
  constructors and \<^verbatim>\<open>setProperties\<close> each carry: copy, \<^verbatim>\<open>tmp = 1.0/sqrt(...)\<close>, scale. The
  sum is taken from the left, as C++ groups it.
\<close>

definition set_axis :: "vec3 \<Rightarrow> vec3" where
  "set_axis axs =
     (case axs of (axis0, axis1, axis2) \<Rightarrow>
        (let tmp = 1 / fsqrt (axis0 * axis0 + axis1 * axis1 + axis2 * axis2)
         in (axis0 * tmp, axis1 * tmp, axis2 * tmp)))"

text \<open>\<^verbatim>\<open>memcpy\<close> of the first \<open>n\<close> scalars of \<open>src\<close> over \<open>dst\<close>.\<close>

definition memcpy :: "array \<Rightarrow> array \<Rightarrow> nat \<Rightarrow> array" where
  "memcpy dst src n = (\<lambda>i. if i < n then src i else dst i)"

text \<open>The constructor from the section properties (Timoshenko beam theory).\<close>

definition TACSBeamConstitutive_section ::
  "vec3 \<Rightarrow> real \<Rightarrow> real \<Rightarrow> real \<Rightarrow> real \<Rightarrow> real \<Rightarrow> real \<Rightarrow> real \<Rightarrow> real \<Rightarrow> real \<Rightarrow> real \<Rightarrow>
     real \<Rightarrow> real \<Rightarrow> real \<Rightarrow> real \<Rightarrow> real \<Rightarrow> real \<Rightarrow> real \<Rightarrow> real \<Rightarrow> real \<Rightarrow> TACSBeamConstitutive" where
  "TACSBeamConstitutive_section axs EA EI22 EI33 EI23 GJ kG22 kG33 kG23 m00 m11 m22 m33
       xm2 xm3 xc2 xc3 xk2 xk3 muS =
     \<lparr> bc_axis = set_axis axs,
       bc_C = (\<lambda>_. 0)
         (0 := EA, 2 := xc3 * EA, 3 := - xc2 * EA,
          6 := GJ + xk2 * xk2 * kG33 + xk3 * xk3 * kG22 + 2 * xk2 * xk3 * kG23,
          9 := - xk2 * kG23 - xk3 * kG22, 10 := xk2 * kG33 + xk3 * kG23,
          11 := EI22 + xc3 * xc3 * EA, 12 := - (EI23 + xc2 * xc3 * EA),
          15 := EI33 + xc2 * xc2 * EA,
          18 := kG22, 19 := - kG23,
          20 := kG33),
       bc_rho = (\<lambda>_. 0)(0 := m00, 1 := m11, 2 := m22, 3 := m00 * xm2 * xm3) \<rparr>"

text \<open>The constructor from the diagonal stiffness and the mass moments.\<close>

definition TACSBeamConstitutive_diagonal ::
  "real \<Rightarrow> real \<Rightarrow> real \<Rightarrow> real \<Rightarrow> real \<Rightarrow> real \<Rightarrow> real \<Rightarrow> real \<Rightarrow> real \<Rightarrow> real \<Rightarrow> vec3
     \<Rightarrow> TACSBeamConstitutive" where
  "TACSBeamConstitutive_diagonal rhoA rhoIy rhoIz rhoIyz EA GJ EIy EIz kGAy kGAz axs =
     \<lparr> bc_axis = set_axis axs,
       bc_C = (\<lambda>_. 0)(0 := EA, 6 := GJ, 11 := EIy, 15 := EIz, 18 := kGAy, 20 := kGAz),
       bc_rho = (\<lambda>_. 0)(0 := rhoA, 1 := rhoIy, 2 := rhoIz, 3 := rhoIyz) \<rparr>"

text \<open>
  \<^verbatim>\<open>setProperties\<close>: each of the three pointers may be null (\<open>None\<close>), and then the
  member keeps its value.
\<close>

definition setProperties ::
  "TACSBeamConstitutive \<Rightarrow> array option \<Rightarrow> array option \<Rightarrow> vec3 option \<Rightarrow> TACSBeamConstitutive" where
  "setProperties this rho0 C0 axs =
     \<lparr> bc_axis = (case axs of None \<Rightarrow> bc_axis this | Some a \<Rightarrow> set_axis a),
       bc_C = (case C0 of None \<Rightarrow> bc_C this
               | Some c \<Rightarrow> memcpy (bc_C this) c NUM_TANGENT_STIFFNESS_ENTRIES),
       bc_rho = (case rho0 of None \<Rightarrow> bc_rho this | Some r \<Rightarrow> memcpy (bc_rho this) r 4) \<rparr>"

text \<open>
  The constructor from the full stiffness calls \<^verbatim>\<open>setProperties\<close> on the object as
  allocated: \<open>this\<close> is its indeterminate initial content.
\<close>

definition TACSBeamConstitutive_full ::
  "TACSBeamConstitutive \<Rightarrow> array option \<Rightarrow> array option \<Rightarrow> vec3 option \<Rightarrow> TACSBeamConstitutive" where
  "TACSBeamConstitutive_full this rho0 C0 axs = setProperties this rho0 C0 axs"

text \<open>
  \<^verbatim>\<open>getProperties\<close> writes through each pointer that is not null; the result gives the three
  buffers afterwards (\<open>None\<close> for a null pointer).
\<close>

definition getProperties ::
  "TACSBeamConstitutive \<Rightarrow> array option \<Rightarrow> array option \<Rightarrow> vec3 option
     \<Rightarrow> array option \<times> array option \<times> vec3 option" where
  "getProperties this rho0 C0 axs =
     (case rho0 of None \<Rightarrow> None | Some r \<Rightarrow> Some (memcpy r (bc_rho this) 4),
      case C0 of None \<Rightarrow> None
      | Some c \<Rightarrow> Some (memcpy c (bc_C this) NUM_TANGENT_STIFFNESS_ENTRIES),
      case axs of None \<Rightarrow> None | Some a \<Rightarrow> Some (bc_axis this))"

definition getNumStresses :: "int" where
  "getNumStresses = 6"

definition evalDensity :: "TACSBeamConstitutive \<Rightarrow> int \<Rightarrow> array \<Rightarrow> array \<Rightarrow> real" where
  "evalDensity this elemIndex pt X = bc_rho this 0"

definition evalSpecificHeat :: "TACSBeamConstitutive \<Rightarrow> int \<Rightarrow> array \<Rightarrow> array \<Rightarrow> real" where
  "evalSpecificHeat this elemIndex pt X = 0"

text \<open>
  Modelled from the spec: \<^verbatim>\<open>computeStress\<close>, declared in the header that is not in the files
  at hand: \<open>s = C e\<close> for the symmetric 6 by 6 operator \<open>C\<close>. The operator is stored by its
  upper triangle, row after row, which is where the constructor puts its rows (row 1 from
  \<^verbatim>\<open>C[0]\<close>, row 2 from \<^verbatim>\<open>C[6]\<close>, then 11, 15, 18 and 20); \<open>packed_index i j\<close> is the place of
  the entry \<open>(i, j)\<close>.
\<close>

definition packed_index :: "nat \<Rightarrow> nat \<Rightarrow> nat" where
  "packed_index i j =
     (let r = min i j; c = max i j in 6 * r - (r * (r - 1)) div 2 + (c - r))"

definition computeStress :: "array \<Rightarrow> array \<Rightarrow> array \<Rightarrow> array" where
  "computeStress C e s =
     fold (\<lambda>i s. s(i := (\<Sum>j\<leftarrow>[0..<6]. C (packed_index i j) * e j))) [0..<6] s"

definition evalStress ::
  "TACSBeamConstitutive \<Rightarrow> int \<Rightarrow> array \<Rightarrow> array \<Rightarrow> array \<Rightarrow> array \<Rightarrow> array" where
  "evalStress this elemIndex pt X e s = computeStress (bc_C this) e s"

definition evalTangentStiffness ::
  "TACSBeamConstitutive \<Rightarrow> int \<Rightarrow> array \<Rightarrow> array \<Rightarrow> array \<Rightarrow> array" where
  "evalTangentStiffness this elemIndex pt X C0 =
     memcpy C0 (bc_C this) NUM_TANGENT_STIFFNESS_ENTRIES"

text \<open>A unit vector: three finite numbers whose squares sum to one.\<close>

definition unit_axis :: "vec3 \<Rightarrow> bool" where
  "unit_axis a =
     (case a of (x, y, z) \<Rightarrow>
        is_finite x \<and> is_finite y \<and> is_finite z
        \<and> (valof x)\<^sup>2 + (valof y)\<^sup>2 + (valof z)\<^sup>2 = 1)"

text \<open>
  A component of an axis whose square neither overflows nor underflows: a zero, or a finite
  number of magnitude between \<open>2\<^sup>-\<^sup>5\<^sup>0\<^sup>0\<close> and \<open>2\<^sup>5\<^sup>0\<^sup>0\<close>.
\<close>

definition axis_component :: "double \<Rightarrow> bool" where
  "axis_component a \<longleftrightarrow>
     is_finite a \<and> (valof a = 0 \<or> (2 powi (- 500) \<le> \<bar>valof a\<bar> \<and> \<bar>valof a\<bar> \<le> 2 powi 500))"

section \<open>The element in double precision\<close>

text \<open>
  The constructor at the type \<open>double\<close>. \<^verbatim>\<open>M_PI\<close> is the double nearest to \<open>\<pi>\<close>; the \<^verbatim>\<open>int\<close>s \<^verbatim>\<open>k\<close>
  and \<^verbatim>\<open>order-1\<close> are converted to \<^verbatim>\<open>double\<close>, the product is taken first and then the
  quotient; \<^verbatim>\<open>cos\<close> of the C library is taken as the correctly rounded cosine. For order 1
  the quotient is \<open>0 / 0\<close> and the one knot is not a number.
\<close>

definition M_PI :: double where
  "M_PI = Finite (884279719003555 / 281474976710656)"

definition double_of_int :: "int \<Rightarrow> double" where
  "double_of_int n = (if n = 0 then Finite 0 else rnd (of_int n))"

definition fcos :: "double \<Rightarrow> double" where
  "fcos a =
     (case a of
        Finite x \<Rightarrow> rnd (cos x)
      | MinusZero \<Rightarrow> Finite 1
      | PlusInfinity \<Rightarrow> NaN
      | MinusInfinity \<Rightarrow> NaN
      | NaN \<Rightarrow> NaN)"

definition PoissonQuad_double :: "nat \<Rightarrow> double buffer \<Rightarrow> double PoissonQuad" where
  "PoissonQuad_double order' f' =
     \<lparr> pq_order = order',
       pq_f = fold (\<lambda>i a. a(i := f' i)) [0..<order' * order'] (\<lambda>_. 0),
       pq_knots =
         (if order' = 2 then (\<lambda>_. 0)(0 := - 1, 1 := 1)
          else if order' = 3 then (\<lambda>_. 0)(0 := - 1, 1 := 0, 2 := 1)
          else fold (\<lambda>k a. a(k := - fcos (M_PI * double_of_int (int k)
                                              / double_of_int (int order' - 1))))
                 [0..<order'] (\<lambda>_. 0)) \<rparr>"

text \<open>
  Modelled from the spec: the two-point Gauss-Legendre rule in double precision, the
  table that \<^verbatim>\<open>FElibrary::getGaussPtsWts\<close> hands to an element of order 2: the points are the
  doubles nearest to \<open>- 1 / sqrt 3\<close> and \<open>1 / sqrt 3\<close>, \<open>\<plusminus> 0.5773502691896257\<close>, the weights
  are 1.
\<close>

definition gauss2PtsWts_double :: "double buffer \<times> double buffer" where
  "gauss2PtsWts_double =
     ((\<lambda>_. 0)(0 := Finite (- (1300077228592327 / 2251799813685248)),
               1 := Finite (1300077228592327 / 2251799813685248)),
      (\<lambda>_. 0)(0 := 1, 1 := 1))"

section \<open>Loops as closed forms\<close>

lemma fold_accumulate:
  "fold (\<lambda>i r. r(i := r i + g i)) [0..<k] r = (\<lambda>i. r i + (if i < k then g i else 0))"
  for r :: array
  by (induction k) (auto simp: fun_eq_iff)

lemma fold_additive:
  fixes r :: array
  assumes "\<And>x r. B x r = (\<lambda>i. r i + B x (\<lambda>_. 0) i)"
  shows "fold B xs r = (\<lambda>i. r i + fold B xs (\<lambda>_. 0) i)"
proof (induction xs arbitrary: r)
  case Nil
  show ?case by simp
next
  case (Cons x xs)
  have "fold B (x # xs) r = fold B xs (B x r)" by simp
  also have "\<dots> = (\<lambda>i. B x r i + fold B xs (\<lambda>_. 0) i)" by (rule Cons.IH)
  also have "\<dots> = (\<lambda>i. r i + (B x (\<lambda>_. 0) i + fold B xs (\<lambda>_. 0) i))"
    by (subst assms) (simp add: add.assoc)
  also have "(\<lambda>i. B x (\<lambda>_. 0) i + fold B xs (\<lambda>_. 0) i) = fold B xs (B x (\<lambda>_. 0))"
    by (rule Cons.IH [symmetric])
  finally show ?case by simp
qed

lemma div_mod_block:
  fixes r :: nat
  assumes "J * n \<le> r" and "r < J * n + n"
  shows "r div n = J" and "r mod n = r - J * n"
proof -
  have n: "0 < n" using assms by (cases n) auto
  obtain i where r: "r = J * n + i" and i: "i < n"
    using assms by (metis add_diff_inverse_nat nat_add_left_cancel_less not_less)
  show "r div n = J" using r i n by simp
  show "r mod n = r - J * n" using r i n by simp
qed

lemma fold_upt_Suc:
  "fold F [0..<Suc J] s = F J (fold F [0..<J] s)"
  by simp

lemma fold_row4:
  "fold (\<lambda>i (N, Na, Nb, p). (N(p := g i), Na(p := ga i), Nb(p := gb i), Suc p)) [0..<k]
     (N0, Na0, Nb0, p0)
   = ((\<lambda>q. if p0 \<le> q \<and> q < p0 + k then g (q - p0) else N0 q),
      (\<lambda>q. if p0 \<le> q \<and> q < p0 + k then ga (q - p0) else Na0 q),
      (\<lambda>q. if p0 \<le> q \<and> q < p0 + k then gb (q - p0) else Nb0 q),
      p0 + k)"
  by (induction k) (auto simp: fun_eq_iff)

lemma fold_grid4:
  fixes G Ga Gb :: "nat \<Rightarrow> nat \<Rightarrow> real"
  shows "fold (\<lambda>j. fold (\<lambda>i (N, Na, Nb, p).
            (N(p := G i j), Na(p := Ga i j), Nb(p := Gb i j), Suc p)) [0..<n]) [0..<J]
     (N0, Na0, Nb0, 0)
   = ((\<lambda>q. if q < J * n then G (q mod n) (q div n) else N0 q),
      (\<lambda>q. if q < J * n then Ga (q mod n) (q div n) else Na0 q),
      (\<lambda>q. if q < J * n then Gb (q mod n) (q div n) else Nb0 q),
      J * n)"
proof (induction J)
  case 0
  show ?case by simp
next
  case (Suc J)
  have blk: "(\<lambda>q. if J * n \<le> q \<and> q < J * n + n then H (q - J * n) J
              else if q < J * n then H (q mod n) (q div n) else M q)
             = (\<lambda>q. if q < Suc J * n then H (q mod n) (q div n) else M q)"
    for H :: "nat \<Rightarrow> nat \<Rightarrow> real" and M :: array
    using div_mod_block [of J n] by (auto simp: fun_eq_iff add.commute)
  show ?case
    unfolding fold_upt_Suc Suc fold_row4 blk [of G N0] blk [of Ga Na0] blk [of Gb Nb0]
    by (simp add: add.commute)
qed

lemma fold_row2:
  "fold (\<lambda>i (N, p). (N(p := g i), Suc p)) [0..<k] (N0, p0)
   = ((\<lambda>q. if p0 \<le> q \<and> q < p0 + k then g (q - p0) else N0 q), p0 + k)"
  by (induction k) (auto simp: fun_eq_iff)

lemma fold_grid2:
  fixes G :: "nat \<Rightarrow> nat \<Rightarrow> real"
  shows "fold (\<lambda>j. fold (\<lambda>i (N, p). (N(p := G i j), Suc p)) [0..<n]) [0..<J] (N0, 0)
   = ((\<lambda>q. if q < J * n then G (q mod n) (q div n) else N0 q), J * n)"
proof (induction J)
  case 0
  show ?case by simp
next
  case (Suc J)
  have blk: "(\<lambda>q. if J * n \<le> q \<and> q < J * n + n then H (q - J * n) J
              else if q < J * n then H (q mod n) (q div n) else M q)
             = (\<lambda>q. if q < Suc J * n then H (q mod n) (q div n) else M q)"
    for H :: "nat \<Rightarrow> nat \<Rightarrow> real" and M :: array
    using div_mod_block [of J n] by (auto simp: fun_eq_iff add.commute)
  show ?case
    unfolding fold_upt_Suc Suc fold_row2 blk [of G N0]
    by (simp add: add.commute)
qed

lemma getShapeFunctions_closed:
  "getShapeFunctions (lib :: real FElibrary) el pt =
     (\<lambda>q. if q < pq_order el * pq_order el
          then lib_lagrangeSFKnots lib (fst pt) (pq_knots el) (pq_order el) (q mod pq_order el)
               * lib_lagrangeSFKnots lib (snd pt) (pq_knots el) (pq_order el) (q div pq_order el)
          else 0)"
  by (simp add: getShapeFunctions_def Let_def fold_grid2)

lemma getShapeFunctions_deriv_closed:
  "getShapeFunctions_deriv (lib :: real FElibrary) el pt =
     (let na = fst (lib_lagrangeSFKnots_deriv lib (fst pt) (pq_knots el) (pq_order el));
          dna = snd (lib_lagrangeSFKnots_deriv lib (fst pt) (pq_knots el) (pq_order el));
          nb = fst (lib_lagrangeSFKnots_deriv lib (snd pt) (pq_knots el) (pq_order el));
          dnb = snd (lib_lagrangeSFKnots_deriv lib (snd pt) (pq_knots el) (pq_order el));
          n = pq_order el
      in ((\<lambda>q. if q < n * n then na (q mod n) * nb (q div n) else 0),
          (\<lambda>q. if q < n * n then dna (q mod n) * nb (q div n) else 0),
          (\<lambda>q. if q < n * n then na (q mod n) * dnb (q div n) else 0)))"
  by (simp add: getShapeFunctions_deriv_def Let_def fold_grid4 case_prod_beta)

lemma sum_grid:
  fixes f g :: array
  shows "(\<Sum>q<J * n. f (q mod n) * g (q div n)) = (\<Sum>i<n. f i) * (\<Sum>j<J. g j)"
proof (induction J)
  case 0
  show ?case by simp
next
  case (Suc J)
  have "(\<Sum>q<Suc J * n. f (q mod n) * g (q div n))
        = (\<Sum>q<J * n. f (q mod n) * g (q div n)) + (\<Sum>q = J * n..<J * n + n. f (q mod n) * g (q div n))"
    by (simp add: lessThan_atLeast0 sum.atLeastLessThan_concat add.commute)
  also have "(\<Sum>q = J * n..<J * n + n. f (q mod n) * g (q div n)) = (\<Sum>q = J * n..<J * n + n. f (q - J * n) * g J)"
    by (rule sum.cong) (auto simp: div_mod_block)
  also have "\<dots> = (\<Sum>i<n. f i * g J)"
    using sum.shift_bounds_nat_ivl [of "\<lambda>q. f (q - J * n) * g J" 0 "J * n" n]
    by (simp add: lessThan_atLeast0 add.commute)
  finally show ?case
    by (simp add: Suc sum_distrib_right distrib_left)
qed

lemma fold_accumulate_row:
  "fold (\<lambda>i a. a(i + c := a (i + c) + g i)) [0..<k] a
     = (\<lambda>p. a p + (if c \<le> p \<and> p < c + k then g (p - c) else 0))"
  for a :: array
proof (induction k)
  case 0
  show ?case by (simp add: fun_eq_iff)
next
  case (Suc k)
  have "fold (\<lambda>i a. a(i + c := a (i + c) + g i)) [0..<Suc k] a
        = (fold (\<lambda>i a. a(i + c := a (i + c) + g i)) [0..<k] a)
            (k + c := (fold (\<lambda>i a. a(i + c := a (i + c) + g i)) [0..<k] a) (k + c) + g k)"
    by simp
  also have "\<dots> = (\<lambda>p. a p + (if c \<le> p \<and> p < c + Suc k then g (p - c) else 0))"
    unfolding Suc by (auto simp: fun_eq_iff)
  finally show ?case .
qed

lemma fold_accumulate_grid:
  fixes a :: array and g :: "nat \<Rightarrow> nat \<Rightarrow> real"
  shows "fold (\<lambda>j. fold (\<lambda>i a. a(i + j * K := a (i + j * K) + g i j)) [0..<K]) [0..<J] a
     = (\<lambda>p. a p + (if p < J * K then g (p mod K) (p div K) else 0))"
proof (induction J)
  case 0
  show ?case by simp
next
  case (Suc J)
  have blk: "(\<lambda>p. a p + (if p < J * K then g (p mod K) (p div K) else 0)
                 + (if J * K \<le> p \<and> p < J * K + K then g (p - J * K) J else 0))
           = (\<lambda>p. a p + (if p < Suc J * K then g (p mod K) (p div K) else 0))"
    using div_mod_block [of J K] by (auto simp: fun_eq_iff add.commute)
  let ?row = "\<lambda>j. fold (\<lambda>i a. a(i + j * K := a (i + j * K) + g i j)) [0..<K]"
  have "fold ?row [0..<Suc J] a = ?row J (fold ?row [0..<J] a)"
    by (rule fold_upt_Suc)
  also have "\<dots> = ?row J (\<lambda>p. a p + (if p < J * K then g (p mod K) (p div K) else 0))"
    by (simp only: Suc)
  also have "\<dots> = (\<lambda>p. a p + (if p < J * K then g (p mod K) (p div K) else 0)
                 + (if J * K \<le> p \<and> p < J * K + K then g (p - J * K) J else 0))"
    by (rule fold_accumulate_row)
  also note blk
  finally show ?case .
qed

lemma fold_shift_sum:
  fixes r :: array
  assumes "\<And>x r. B x r = (\<lambda>i. r i + D x i)"
  shows "fold B xs r = (\<lambda>i. r i + (\<Sum>x\<leftarrow>xs. D x i))"
proof (induction xs arbitrary: r)
  case Nil
  show ?case by simp
next
  case (Cons x xs)
  have "fold B (x # xs) r = fold B xs (B x r)" by simp
  also have "\<dots> = (\<lambda>i. B x r i + (\<Sum>y\<leftarrow>xs. D y i))" by (rule Cons.IH)
  also have "\<dots> = (\<lambda>i. r i + (\<Sum>y\<leftarrow>x # xs. D y i))"
    by (subst assms) (simp add: add.assoc)
  finally show ?case .
qed

text \<open>Writes in index order, short index ranges, arrays given by their entries.\<close>

lemma fold_write:
  "fold (\<lambda>i a. a(i := g i)) [0..<k] a = (\<lambda>i. if i < k then g i else a i)"
  by (induction k) (auto simp: fun_eq_iff)

lemma fold_write2:
  "fold (\<lambda>i (a, b). case G i of (s, ds) \<Rightarrow> (a(i := s), b(i := ds))) [0..<k] (a, b)
     = (\<lambda>i. if i < k then fst (G i) else a i, \<lambda>i. if i < k then snd (G i) else b i)"
  by (induction k) (auto simp: fun_eq_iff case_prod_beta)

lemma upt_2: "[0..<2] = [0, 1]"
  by (simp add: upt_rec)

lemma upt_4: "[0..<4] = [0, 1, 2, 3]"
  by (simp add: upt_rec)

lemma upt_6: "[0..<6] = [0, 1, 2, 3, 4, 5]"
  by (simp add: upt_rec)

lemma upt_16:
  "[0..<16] = [0, 1, 2, 3, 4, 5, 6, 7, 8, 9, 10, 11, 12, 13, 14, 15]"
  by (simp add: upt_rec)

lemma array_of_4_apply:
  "array_of [x0, x1, x2, x3] q =
     (if q = 0 then x0 else if q = 1 then x1 else if q = 2 then x2 else if q = 3 then x3 else 0)"
proof -
  consider "q = 0" | "q = 1" | "q = 2" | "q = 3" | "4 \<le> q" by linarith
  then show ?thesis by cases (simp_all add: array_of_def)
qed

text \<open>What the constructor stores.\<close>

lemma PoissonQuad_order [simp]: "pq_order (PoissonQuad n f') = n"
  by (simp add: PoissonQuad_def)

lemma PoissonQuad_f: "pq_f (PoissonQuad n f') = (\<lambda>i. if i < n * n then f' i else 0)"
  by (simp add: PoissonQuad_def fold_write)

lemma PoissonQuad_knots:
  "pq_knots (PoissonQuad n f') =
     (if n = 2 then (\<lambda>_. 0)(0 := -1, 1 := 1)
      else if n = 3 then (\<lambda>_. 0)(0 := -1, 1 := 0, 2 := 1)
      else (\<lambda>i. if i < n then - cos (pi * real i / (real n - 1)) else 0))"
  by (simp add: PoissonQuad_def fold_write)

section \<open>Rounding\<close>

lemma expo_bounds:
  assumes "x \<noteq> 0"
  shows "2 powi (expo x) \<le> \<bar>x\<bar>" and "\<bar>x\<bar> < 2 powi (expo x + 1)"
proof -
  have "2 powi (expo x) \<le> \<bar>x\<bar> \<and> \<bar>x\<bar> < 2 powi (expo x + 1)"
  proof (cases "1 \<le> \<bar>x\<bar>")
    case True
    let ?n = "\<lfloor>\<bar>x\<bar>\<rfloor>"
    have n: "0 < ?n" using True by linarith
    have e: "expo x = bitlen ?n - 1" using True by (simp add: expo_def)
    have b1: "1 \<le> bitlen ?n" using n by (simp add: bitlen_alt_def)
    from bitlen_bounds [OF n]
    have lo: "(2::int) ^ nat (bitlen ?n - 1) \<le> ?n" and hi: "?n < 2 ^ nat (bitlen ?n)" by simp_all
    have "(2::real) ^ nat (bitlen ?n - 1) \<le> of_int ?n"
      using lo by (metis of_int_le_iff of_int_numeral of_int_power)
    also have "\<dots> \<le> \<bar>x\<bar>" by simp
    finally have l: "2 powi (expo x) \<le> \<bar>x\<bar>"
      unfolding e using b1 by (simp add: power_int_def)
    have "?n + 1 \<le> 2 ^ nat (bitlen ?n)" using hi by simp
    then have "of_int (?n + 1) \<le> (2::real) ^ nat (bitlen ?n)"
      by (metis of_int_le_iff of_int_numeral of_int_power)
    moreover have "\<bar>x\<bar> < of_int (?n + 1)" by linarith
    ultimately have "\<bar>x\<bar> < (2::real) ^ nat (bitlen ?n)" by linarith
    then have h: "\<bar>x\<bar> < 2 powi (expo x + 1)"
      unfolding e using b1 by (simp add: power_int_def)
    show ?thesis using l h by simp
  next
    case False
    let ?y = "1 / \<bar>x\<bar>"
    let ?n = "\<lceil>?y\<rceil> - 1"
    have x: "0 < \<bar>x\<bar>" "\<bar>x\<bar> < 1" using assms False by simp_all
    have y: "1 < ?y" using x by simp
    have n: "0 < ?n" using y by linarith
    have e: "expo x = - bitlen ?n" using False by (simp add: expo_def)
    have b1: "1 \<le> bitlen ?n" using n by (simp add: bitlen_alt_def)
    from bitlen_bounds [OF n]
    have lo: "(2::int) ^ nat (bitlen ?n - 1) \<le> ?n" and hi: "?n < 2 ^ nat (bitlen ?n)" by simp_all
    have "?n + 1 \<le> 2 ^ nat (bitlen ?n)" using hi by simp
    then have "of_int (?n + 1) \<le> (2::real) ^ nat (bitlen ?n)"
      by (metis of_int_le_iff of_int_numeral of_int_power)
    moreover have "?y \<le> of_int (?n + 1)" by simp
    ultimately have yle: "?y \<le> 2 ^ nat (bitlen ?n)" by linarith
    have "(2::real) ^ nat (bitlen ?n - 1) \<le> of_int ?n"
      using lo by (metis of_int_le_iff of_int_numeral of_int_power)
    moreover have "of_int ?n < ?y" by linarith
    ultimately have ygt: "2 ^ nat (bitlen ?n - 1) < ?y" by linarith
    have "1 / 2 ^ nat (bitlen ?n) \<le> \<bar>x\<bar>"
      using yle x by (simp add: field_simps)
    then have l: "2 powi (expo x) \<le> \<bar>x\<bar>"
      unfolding e using b1 by (simp add: power_int_def field_simps)
    have "\<bar>x\<bar> < 1 / 2 ^ nat (bitlen ?n - 1)"
      using ygt x by (simp add: field_simps)
    moreover have "2 powi (expo x + 1) = 1 / (2::real) ^ nat (bitlen ?n - 1)"
    proof -
      have "expo x + 1 = - int (nat (bitlen ?n - 1))" unfolding e using b1 by simp
      then show ?thesis by (simp only: power_int_minus power_int_of_nat) (simp add: field_simps)
    qed
    ultimately have h: "\<bar>x\<bar> < 2 powi (expo x + 1)" by simp
    show ?thesis using l h by simp
  qed
  then show "2 powi (expo x) \<le> \<bar>x\<bar>" and "\<bar>x\<bar> < 2 powi (expo x + 1)" by simp_all
qed

lemma expo_eqI:
  assumes "2 powi e \<le> \<bar>x\<bar>" and "\<bar>x\<bar> < 2 powi (e + 1)"
  shows "expo x = e"
proof -
  have "0 < (2::real) powi e" by simp
  then have "0 < \<bar>x\<bar>" using assms(1) by linarith
  then have nz: "x \<noteq> 0" by simp
  note b = expo_bounds [OF nz]
  have "\<not> e < expo x"
  proof
    assume "e < expo x"
    then have "e + 1 \<le> expo x" by simp
    then have "(2::real) powi (e + 1) \<le> 2 powi (expo x)"
      by (intro power_int_increasing) simp_all
    then show False using b(1) assms(2) by linarith
  qed
  moreover have "\<not> expo x < e"
  proof
    assume "expo x < e"
    then have "expo x + 1 \<le> e" by simp
    then have "(2::real) powi (expo x + 1) \<le> 2 powi e"
      by (intro power_int_increasing) simp_all
    then show False using b(2) assms(1) by linarith
  qed
  ultimately show ?thesis by simp
qed

lemma round_even_error: "\<bar>of_int (round_even q) - q\<bar> \<le> 1 / 2"
  unfolding round_even_def Let_def by (auto simp: abs_le_iff)

lemma round_even_eqI:
  assumes "\<bar>q - of_int m\<bar> < 1 / 2"
  shows "round_even q = m"
proof -
  have "\<bar>of_int (round_even q) - q\<bar> \<le> 1 / 2" by (rule round_even_error)
  then have "\<bar>(of_int (round_even q) :: real) - of_int m\<bar> < 1" using assms by linarith
  then have "\<bar>round_even q - m\<bar> < 1"
    by (metis of_int_diff of_int_abs of_int_less_iff of_int_1)
  then show ?thesis by simp
qed

lemma rnd_eqI:
  assumes "2 powi e \<le> \<bar>x\<bar>" and "\<bar>x\<bar> < 2 powi (e + 1)" and "- 1022 \<le> e"
    and "\<bar>x / 2 powi (e - 52) - of_int m\<bar> < 1 / 2"
    and "m \<noteq> 0" and "\<bar>real_of_int m * 2 powi (e - 52)\<bar> < 2 powi 1024"
  shows "rnd x = Finite (of_int m * 2 powi (e - 52))"
proof -
  have e: "expo x = e" using assms(1,2) by (rule expo_eqI)
  have m: "round_even (x / 2 powi (e - 52)) = m" using assms(4) by (rule round_even_eqI)
  have mx: "max e (- 1022) = e" using assms(3) by simp
  have nz: "of_int m * (2::real) powi (e - 52) \<noteq> 0" using assms(5) by simp
  show ?thesis
    unfolding rnd_def e mx Let_def m using assms(6) nz by simp
qed

lemma rnd_rel_error:
  assumes "2 powi (- 1022) \<le> \<bar>x\<bar>" and "\<bar>x\<bar> \<le> 2 powi 1023"
  shows "\<exists>y. rnd x = Finite y \<and> \<bar>y - x\<bar> \<le> 2 powi (- 53) * \<bar>x\<bar>"
proof -
  have "0 < (2::real) powi (- 1022)" by simp
  then have "0 < \<bar>x\<bar>" using assms(1) by linarith
  then have nz: "x \<noteq> 0" by simp
  note b = expo_bounds [OF nz]
  let ?e = "expo x"
  let ?u = "(2::real) powi (?e - 52)"
  let ?m = "round_even (x / ?u)"
  let ?y = "of_int ?m * ?u"
  have lo: "- 1022 \<le> ?e"
  proof (rule ccontr)
    assume "\<not> - 1022 \<le> ?e"
    then have "?e + 1 \<le> - 1022" by simp
    then have "(2::real) powi (?e + 1) \<le> 2 powi (- 1022)"
      by (intro power_int_increasing) simp_all
    then show False using b(2) assms(1) by linarith
  qed
  have hi: "?e \<le> 1023"
  proof (rule ccontr)
    assume "\<not> ?e \<le> 1023"
    then have "1024 \<le> ?e" by simp
    then have "(2::real) powi 1024 \<le> 2 powi ?e"
      by (intro power_int_increasing) simp_all
    moreover have "(2::real) powi 1023 < 2 powi 1024"
      by (intro power_int_strict_increasing) simp_all
    ultimately show False using b(1) assms(2) by linarith
  qed
  have u: "0 < ?u" by simp
  have "\<bar>of_int ?m - x / ?u\<bar> \<le> 1 / 2" by (rule round_even_error)
  then have "\<bar>of_int ?m - x / ?u\<bar> * ?u \<le> 1 / 2 * ?u"
    using u by (intro mult_right_mono) simp_all
  moreover have "\<bar>of_int ?m - x / ?u\<bar> * ?u = \<bar>?y - x\<bar>"
  proof -
    have "\<bar>of_int ?m - x / ?u\<bar> * ?u = \<bar>(of_int ?m - x / ?u) * ?u\<bar>"
      using u by (simp add: abs_mult)
    also have "(of_int ?m - x / ?u) * ?u = ?y - x"
      using u by (simp add: field_simps)
    finally show ?thesis .
  qed
  ultimately have err: "\<bar>?y - x\<bar> \<le> 1 / 2 * ?u" by simp
  have half: "1 / 2 * ?u = 2 powi (- 53) * 2 powi ?e"
  proof -
    have "(2::real) powi (?e - 52) = 2 powi ?e * 2 powi (- 52)"
      by (simp add: power_int_diff power_int_minus field_simps)
    moreover have "1 / 2 * (2::real) powi (- 52) = 2 powi (- 53)"
      by (simp add: power_int_minus)
    ultimately show ?thesis by (simp add: field_simps)
  qed
  have rel: "\<bar>?y - x\<bar> \<le> 2 powi (- 53) * \<bar>x\<bar>"
  proof -
    have "2 powi (- 53) * 2 powi ?e \<le> 2 powi (- 53) * \<bar>x\<bar>"
      using b(1) by (intro mult_left_mono) simp_all
    then show ?thesis using err half by linarith
  qed
  have small: "(2::real) powi (- 53) < 1" by (simp add: power_int_minus field_simps)
  have "2 powi (- 53) * \<bar>x\<bar> < 1 * \<bar>x\<bar>"
    using small \<open>0 < \<bar>x\<bar>\<close> by (intro mult_strict_right_mono) simp_all
  then have strict: "\<bar>?y - x\<bar> < \<bar>x\<bar>" using rel by linarith
  then have ynz: "?y \<noteq> 0" by auto
  have "2 powi (- 53) * \<bar>x\<bar> \<le> 2 powi (- 53) * 2 powi 1023"
    using assms(2) by (intro mult_left_mono) simp_all
  also have "\<dots> = 2 powi 970" by (simp add: power_int_minus field_simps)
  finally have "\<bar>?y - x\<bar> \<le> 2 powi 970" using rel by linarith
  then have "\<bar>?y\<bar> \<le> 2 powi 1023 + 2 powi 970" using assms(2) by linarith
  also have "\<dots> < (2::real) powi 1024" by simp
  finally have fin: "\<not> 2 powi 1024 \<le> \<bar>?y\<bar>" by simp
  have mx: "max ?e (- 1022) = ?e" using lo by simp
  have "rnd x = Finite ?y"
    unfolding rnd_def mx Let_def using fin ynz by simp
  then show ?thesis using rel by blast
qed

lemma rnd_normal:
  assumes "normal_range x"
  shows "is_finite (rnd x) \<and> \<bar>valof (rnd x) - x\<bar> \<le> macheps * \<bar>x\<bar>"
proof -
  from assms obtain y where "rnd x = Finite y" and "\<bar>y - x\<bar> \<le> 2 powi (- 53) * \<bar>x\<bar>"
    unfolding normal_range_def using rnd_rel_error by blast
  then show ?thesis by (simp add: macheps_def)
qed

lemma is_finite_cases:
  assumes "is_finite a"
  obtains x where "a = Finite x" | "a = MinusZero"
  using assms by (cases a) simp_all

lemma valof_zero_iff: "is_finite a \<Longrightarrow> valof a = 0 \<longleftrightarrow> is_zero a"
  by (cases a) simp_all

lemma finite_not_special:
  assumes "is_finite a"
  shows "a \<noteq> NaN" and "\<not> is_infinite a"
  using assms by (cases a; simp)+

lemma is_finite_zero_of_sign [simp]: "is_finite (zero_of_sign s)" "valof (zero_of_sign s) = 0"
  by (simp_all add: zero_of_sign_def)

lemma fmul_error:
  assumes "is_finite a" and "is_finite b"
    and "valof a * valof b = 0 \<or> normal_range (valof a * valof b)"
  shows "is_finite (a * b) \<and> \<bar>valof (a * b) - valof a * valof b\<bar> \<le> macheps * \<bar>valof a * valof b\<bar>"
proof (cases "valof a * valof b = 0")
  case True
  then have "is_zero a \<or> is_zero b"
    using assms(1,2) by (simp add: valof_zero_iff)
  then have "a * b = zero_of_sign (signbit a \<noteq> signbit b)"
    using finite_not_special [OF assms(1)] finite_not_special [OF assms(2)]
    by (simp add: times_double_def fmul_def)
  then have "is_finite (a * b)" and "valof (a * b) = 0" by simp_all
  then show ?thesis unfolding True by simp
next
  case False
  then have nr: "normal_range (valof a * valof b)" using assms(3) by simp
  have "\<not> is_zero a" "\<not> is_zero b"
    using False assms(1,2) by (simp_all add: valof_zero_iff [symmetric])
  then have "a * b = rnd (valof a * valof b)"
    using finite_not_special [OF assms(1)] finite_not_special [OF assms(2)]
    by (simp add: times_double_def fmul_def)
  then show ?thesis using rnd_normal [OF nr] by simp
qed

lemma fadd_error:
  assumes "is_finite a" and "is_finite b"
    and "valof a + valof b = 0 \<or> normal_range (valof a + valof b)"
  shows "is_finite (a + b) \<and> \<bar>valof (a + b) - (valof a + valof b)\<bar> \<le> macheps * \<bar>valof a + valof b\<bar>"
proof (cases "valof a + valof b = 0")
  case True
  then have "a + b = (if signbit a \<and> signbit b then MinusZero else Finite 0)"
    using finite_not_special [OF assms(1)] finite_not_special [OF assms(2)]
    by (simp add: plus_double_def fadd_def)
  then show ?thesis using True by simp
next
  case False
  then have nr: "normal_range (valof a + valof b)" using assms(3) by simp
  have "a + b = rnd (valof a + valof b)"
    using False finite_not_special [OF assms(1)] finite_not_special [OF assms(2)]
    by (simp add: plus_double_def fadd_def)
  then show ?thesis using rnd_normal [OF nr] by simp
qed

lemma fdiv_error:
  assumes "is_finite a" and "is_finite b" and "valof b \<noteq> 0"
    and "valof a = 0 \<or> normal_range (valof a / valof b)"
  shows "is_finite (a / b) \<and> \<bar>valof (a / b) - valof a / valof b\<bar> \<le> macheps * \<bar>valof a / valof b\<bar>"
proof (cases "valof a = 0")
  case True
  have nzb: "\<not> is_zero b" using assms(2,3) by (simp add: valof_zero_iff [symmetric])
  have "is_zero a" using True assms(1) by (simp add: valof_zero_iff)
  then have "a / b = zero_of_sign (signbit a \<noteq> signbit b)"
    using nzb finite_not_special [OF assms(1)] finite_not_special [OF assms(2)]
    by (simp add: divide_double_def fdiv_def)
  then show ?thesis using True by simp
next
  case False
  then have nr: "normal_range (valof a / valof b)" using assms(4) by simp
  have nzb: "\<not> is_zero b" using assms(2,3) by (simp add: valof_zero_iff [symmetric])
  have "\<not> is_zero a" using False assms(1) by (simp add: valof_zero_iff [symmetric])
  then have "a / b = rnd (valof a / valof b)"
    using nzb finite_not_special [OF assms(1)] finite_not_special [OF assms(2)]
    by (simp add: divide_double_def fdiv_def)
  then show ?thesis using rnd_normal [OF nr] by simp
qed

lemma fsqrt_error:
  assumes "is_finite a" and "0 \<le> valof a"
    and "valof a = 0 \<or> normal_range (sqrt (valof a))"
  shows "is_finite (fsqrt a) \<and> \<bar>valof (fsqrt a) - sqrt (valof a)\<bar> \<le> macheps * \<bar>sqrt (valof a)\<bar>"
  using assms(1)
proof (cases rule: is_finite_cases)
  case (1 x)
  show ?thesis
  proof (cases "x = 0")
    case True
    then show ?thesis using 1 by (simp add: fsqrt_def)
  next
    case False
    then have "0 < x" using assms(2) 1 by simp
    moreover have "normal_range (sqrt x)" using assms(3) False 1 by simp
    ultimately show ?thesis using 1 rnd_normal [of "sqrt x"] by (simp add: fsqrt_def)
  qed
next
  case 2
  then show ?thesis by (simp add: fsqrt_def)
qed

lemma macheps_bounds: "0 < macheps" "macheps < 1" "macheps \<le> 1 / 2 ^ 53" "1 / 2 ^ 53 \<le> macheps"
  by (simp_all add: macheps_def power_int_minus field_simps)

lemma enclose:
  assumes "\<bar>b - c\<bar> \<le> macheps * \<bar>c\<bar>" and "0 \<le> c"
  shows "(1 - macheps) * c \<le> b" and "b \<le> (1 + macheps) * c"
  using assms by (simp_all add: abs_le_iff algebra_simps)

lemma enclose_square:
  assumes "\<bar>b - c\<bar> \<le> macheps * \<bar>c\<bar>"
  shows "(1 - macheps)\<^sup>2 * c\<^sup>2 \<le> b\<^sup>2" and "b\<^sup>2 \<le> (1 + macheps)\<^sup>2 * c\<^sup>2"
proof -
  have u: "0 \<le> 1 - macheps" using macheps_bounds by simp
  have "\<bar>b\<bar> \<le> \<bar>c\<bar> + macheps * \<bar>c\<bar>" using assms by linarith
  then have hi: "\<bar>b\<bar> \<le> (1 + macheps) * \<bar>c\<bar>" by (simp add: algebra_simps)
  have "\<bar>c\<bar> - macheps * \<bar>c\<bar> \<le> \<bar>b\<bar>" using assms by linarith
  then have lo: "(1 - macheps) * \<bar>c\<bar> \<le> \<bar>b\<bar>" by (simp add: algebra_simps)
  have "((1 - macheps) * \<bar>c\<bar>)\<^sup>2 \<le> \<bar>b\<bar>\<^sup>2"
    using lo u by (intro power_mono) simp_all
  then show "(1 - macheps)\<^sup>2 * c\<^sup>2 \<le> b\<^sup>2" by (simp add: power_mult_distrib)
  have "\<bar>b\<bar>\<^sup>2 \<le> ((1 + macheps) * \<bar>c\<bar>)\<^sup>2"
    using hi by (intro power_mono) simp_all
  then show "b\<^sup>2 \<le> (1 + macheps)\<^sup>2 * c\<^sup>2" by (simp add: power_mult_distrib)
qed

lemma normal_rangeI:
  assumes "2 powi (- 1022) \<le> x" and "x \<le> 2 powi 1023"
  shows "normal_range x"
proof -
  have "0 < (2::real) powi (- 1022)" by simp
  then have "0 \<le> x" using assms(1) by linarith
  then show ?thesis using assms by (simp add: normal_range_def)
qed


lemma add_nonneg_error:
  assumes "is_finite p" and "is_finite q"
    and "valof p + valof q = 0
         \<or> (2 powi (- 1022) \<le> valof p + valof q \<and> valof p + valof q \<le> 2 powi 1023)"
  shows "is_finite (p + q)"
    and "0 \<le> valof p + valof q \<Longrightarrow> (1 - macheps) * (valof p + valof q) \<le> valof (p + q)"
    and "0 \<le> valof p + valof q \<Longrightarrow> valof (p + q) \<le> (1 + macheps) * (valof p + valof q)"
proof -
  have cond: "valof p + valof q = 0 \<or> normal_range (valof p + valof q)"
    using assms(3) normal_rangeI by blast
  note e = fadd_error [OF assms(1,2) cond]
  show "is_finite (p + q)" using e by simp
  have err: "\<bar>valof (p + q) - (valof p + valof q)\<bar> \<le> macheps * \<bar>valof p + valof q\<bar>"
    using e by simp
  show "0 \<le> valof p + valof q \<Longrightarrow> (1 - macheps) * (valof p + valof q) \<le> valof (p + q)"
    and "0 \<le> valof p + valof q \<Longrightarrow> valof (p + q) \<le> (1 + macheps) * (valof p + valof q)"
    using enclose [OF err] by simp_all
qed

lemma half_le: "1 / 2 \<le> 1 - macheps" and le_two: "1 + macheps \<le> 2"
  using macheps_bounds by (simp_all add: field_simps)

lemma scale_bounds:
  assumes "(1 - macheps) * c \<le> b" and "b \<le> (1 + macheps) * c" and "0 \<le> c"
  shows "c / 2 \<le> b" and "b \<le> 2 * c"
proof -
  have "1 / 2 * c \<le> (1 - macheps) * c" using half_le assms(3) by (intro mult_right_mono)
  then show "c / 2 \<le> b" using assms(1) by simp
  have "(1 + macheps) * c \<le> 2 * c" using le_two assms(3) by (intro mult_right_mono)
  then show "b \<le> 2 * c" using assms(2) by simp
qed

lemma pow2_mono: "a \<le> b \<Longrightarrow> (2::real) powi a \<le> 2 powi b"
  by (intro power_int_increasing) simp_all

lemma pow2_half: "(2::real) powi a / 2 = 2 powi (a - 1)"
  by (simp add: power_int_diff)

lemma pow2_double: "2 * (2::real) powi a = 2 powi (a + 1)"
  by (simp add: power_int_add)

lemma pow2_mult: "(2::real) powi a * 2 powi b = 2 powi (a + b)"
  by (simp add: power_int_add)

lemma pow2_inverse: "1 / (2::real) powi a = 2 powi (- a)"
  by (simp add: power_int_minus field_simps)

lemma pow2_square: "((2::real) powi a)\<^sup>2 = 2 powi (2 * a)"
  by (simp add: power2_eq_square pow2_mult)

lemma macheps_numeric:
  "(1 + macheps) ^ 4 \<le> (1 + 2 powi (- 49)) * (1 - macheps) ^ 5"
  "(1 - 2 powi (- 49)) * (1 + macheps) ^ 5 \<le> (1 - macheps) ^ 4"
proof -
  have m: "macheps = 1 / 9007199254740992"
    by (simp add: macheps_def power_int_minus)
  have e: "(2::real) powi (- 49) = 1 / 562949953421312"
    by (simp add: power_int_minus)
  show "(1 + macheps) ^ 4 \<le> (1 + 2 powi (- 49)) * (1 - macheps) ^ 5"
    unfolding m e by (simp add: power_divide)
  show "(1 - 2 powi (- 49)) * (1 + macheps) ^ 5 \<le> (1 - macheps) ^ 4"
    unfolding m e by (simp add: power_divide)
qed

lemma round_even_tie:
  assumes "q = of_int f + 1 / 2"
  shows "round_even q = (if even f then f else f + 1)"
proof -
  have "\<lfloor>q\<rfloor> = f" unfolding assms by linarith
  then show ?thesis unfolding round_even_def Let_def using assms by simp
qed

lemma rnd_value:
  assumes "2 powi e \<le> \<bar>x\<bar>" and "\<bar>x\<bar> < 2 powi (e + 1)" and "- 1022 \<le> e"
    and "round_even (x / 2 powi (e - 52)) = m"
    and "m \<noteq> 0" and "\<bar>real_of_int m * 2 powi (e - 52)\<bar> < 2 powi 1024"
  shows "rnd x = Finite (of_int m * 2 powi (e - 52))"
proof -
  have e: "expo x = e" using assms(1,2) by (rule expo_eqI)
  have mx: "max e (- 1022) = e" using assms(3) by simp
  have nz: "of_int m * (2::real) powi (e - 52) \<noteq> 0" using assms(5) by simp
  show ?thesis
    unfolding rnd_def e mx Let_def assms(4) using assms(6) nz by simp
qed

lemma rnd_overflow:
  assumes "2 powi 1024 \<le> \<bar>x\<bar>"
  shows "rnd x = infinity_of_sign (x < 0)"
proof -
  have "0 < (2::real) powi 1024" by simp
  then have "0 < \<bar>x\<bar>" using assms by linarith
  then have nz: "x \<noteq> 0" by simp
  note b = expo_bounds [OF nz]
  let ?e = "expo x"
  let ?u = "(2::real) powi (?e - 52)"
  let ?m = "round_even (x / ?u)"
  have e: "1024 \<le> ?e"
  proof (rule ccontr)
    assume "\<not> 1024 \<le> ?e"
    then have "?e + 1 \<le> 1024" by simp
    then have "(2::real) powi (?e + 1) \<le> 2 powi 1024" by (rule pow2_mono)
    then show False using b(2) assms by linarith
  qed
  have mx: "max ?e (- 1022) = ?e" using e by simp
  have u: "0 < ?u" by simp
  have q: "2 powi ?e = 2 powi 52 * ?u" using pow2_mult [of 52 "?e - 52"] by simp
  have "2 powi 52 * ?u \<le> \<bar>x\<bar>" using b(1) q by simp
  then have "2 powi 52 \<le> \<bar>x\<bar> / ?u" using u by (simp add: field_simps)
  then have big: "2 powi 52 \<le> \<bar>x / ?u\<bar>" by simp
  have "\<bar>of_int ?m - x / ?u\<bar> \<le> 1 / 2" by (rule round_even_error)
  then have "\<bar>x / ?u\<bar> - 1 / 2 \<le> \<bar>real_of_int ?m\<bar>" by linarith
  then have "2 powi 52 - 1 / 2 \<le> \<bar>real_of_int ?m\<bar>" using big by linarith
  then have "2 ^ 52 - 1 / 2 \<le> real_of_int \<bar>?m\<bar>" by simp
  then have "real_of_int (2 ^ 52 - 1) < real_of_int \<bar>?m\<bar>" by simp
  then have "(2::int) ^ 52 - 1 < \<bar>?m\<bar>" by (simp only: of_int_less_iff)
  then have "(2::int) ^ 52 \<le> \<bar>?m\<bar>" by simp
  then have "(2::real) ^ 52 \<le> real_of_int \<bar>?m\<bar>"
    by (metis of_int_le_iff of_int_numeral of_int_power)
  then have "2 powi 52 * ?u \<le> \<bar>real_of_int ?m\<bar> * ?u"
    using u by (intro mult_right_mono) simp_all
  then have "2 powi ?e \<le> \<bar>real_of_int ?m * ?u\<bar>"
    unfolding q using u by (simp add: abs_mult)
  moreover have "(2::real) powi 1024 \<le> 2 powi ?e" using e by (rule pow2_mono)
  ultimately have "2 powi 1024 \<le> \<bar>real_of_int ?m * ?u\<bar>" by linarith
  then show ?thesis
    unfolding rnd_def mx Let_def by simp
qed

lemma rnd_underflow:
  assumes "x \<noteq> 0" and "\<bar>x\<bar> < 2 powi (- 1075)"
  shows "rnd x = zero_of_sign (x < 0)"
proof -
  note b = expo_bounds [OF assms(1)]
  let ?e = "expo x"
  have e: "?e \<le> - 1022"
  proof (rule ccontr)
    assume "\<not> ?e \<le> - 1022"
    then have "- 1075 \<le> ?e" by simp
    then have "(2::real) powi (- 1075) \<le> 2 powi ?e" by (rule pow2_mono)
    then show False using b(1) assms(2) by linarith
  qed
  have mx: "max ?e (- 1022) = - 1022" using e by simp
  let ?u = "(2::real) powi (- 1022 - 52)"
  have u: "0 < ?u" by simp
  have "(2::real) powi (- 1075) = 1 / 2 * ?u"
    using pow2_half [of "- 1074"] by simp
  then have "\<bar>x\<bar> < 1 / 2 * ?u" using assms(2) by simp
  then have "\<bar>x\<bar> / ?u < 1 / 2" using u by (simp add: field_simps)
  then have "\<bar>x / ?u - of_int 0\<bar> < 1 / 2" by simp
  then have m: "round_even (x / ?u) = 0" by (rule round_even_eqI)
  show ?thesis
    unfolding rnd_def mx Let_def m by simp
qed

lemma rnd_exact:
  assumes "2 powi e \<le> \<bar>x\<bar>" and "\<bar>x\<bar> < 2 powi (e + 1)" and "- 1022 \<le> e" and "e \<le> 1023"
    and "x / 2 powi (e - 52) = of_int m"
  shows "rnd x = Finite x"
proof -
  have "0 < (2::real) powi e" by simp
  then have "0 < \<bar>x\<bar>" using assms(1) by linarith
  then have nz: "x \<noteq> 0" by simp
  have u: "(2::real) powi (e - 52) \<noteq> 0" by simp
  have x: "x = of_int m * 2 powi (e - 52)"
    using assms(5) u by (simp add: field_simps)
  have m: "round_even (x / 2 powi (e - 52)) = m"
    unfolding assms(5) by (rule round_even_eqI) simp
  have mnz: "m \<noteq> 0" using nz x by auto
  have "(2::real) powi (e + 1) \<le> 2 powi 1024" using assms(4) by (intro pow2_mono) simp
  then have "\<bar>real_of_int m * 2 powi (e - 52)\<bar> < 2 powi 1024"
    using assms(2) x by simp
  from rnd_value [OF assms(1,2,3) m mnz this] show ?thesis using x by simp
qed


lemma rnd_nearest:
  assumes "2 powi e \<le> \<bar>x\<bar>" and "\<bar>x\<bar> < 2 powi (e + 1)" and "- 1022 \<le> e"
    and "\<bar>x / 2 powi (e - 52) - of_int m\<bar> < 1 / 2"
    and "m \<noteq> 0" and "\<bar>real_of_int m * 2 powi (e - 52)\<bar> < 2 powi 1024"
    and "y = of_int m * 2 powi (e - 52)"
  shows "rnd x = Finite y"
  unfolding assms(7) using assms(1,2,3) round_even_eqI [OF assms(4)] assms(5,6) by (rule rnd_value)

lemma rnd_tie:
  assumes "2 powi e \<le> \<bar>x\<bar>" and "\<bar>x\<bar> < 2 powi (e + 1)" and "- 1022 \<le> e"
    and "x / 2 powi (e - 52) = of_int f + 1 / 2"
    and "m = (if even f then f else f + 1)"
    and "m \<noteq> 0" and "\<bar>real_of_int m * 2 powi (e - 52)\<bar> < 2 powi 1024"
    and "y = of_int m * 2 powi (e - 52)"
  shows "rnd x = Finite y"
proof -
  have "round_even (x / 2 powi (e - 52)) = m"
    unfolding assms(5) using assms(4) by (rule round_even_tie)
  with assms(1,2,3) show ?thesis unfolding assms(8) using assms(6,7) by (rule rnd_value)
qed

lemmas double_ops =
  times_double_def fmul_def plus_double_def fadd_def minus_double_def uminus_double_def fneg_def
  divide_double_def fdiv_def fsqrt_def zero_double_def one_double_def zero_of_sign_def
  infinity_of_sign_def
section \<open>The modelled library routines\<close>

text \<open>
  The second component of \<open>lagrangeSFKnots_deriv\<close> is the derivative of the first in the
  parametric coordinate.
\<close>

lemma fold_lagrange_term_has_derivative:
  fixes k :: array
  shows "((\<lambda>a. fst (fold (\<lambda>j (s, ds).
                     if i \<noteq> j
                     then (s * ((a - k j) / (k i - k j)),
                           ds * ((a - k j) / (k i - k j)) + s * (1 / (k i - k j)))
                     else (s, ds)) [0..<n] (1, 0)))
          has_real_derivative
          snd (fold (\<lambda>j (s, ds).
                     if i \<noteq> j
                     then (s * ((x - k j) / (k i - k j)),
                           ds * ((x - k j) / (k i - k j)) + s * (1 / (k i - k j)))
                     else (s, ds)) [0..<n] (1, 0))) (at x)"
proof (induction n)
  case 0
  show ?case by simp
next
  case (Suc n)
  let ?F = "\<lambda>a. fold (\<lambda>j (s, ds).
                     if i \<noteq> j
                     then (s * ((a - k j) / (k i - k j)),
                           ds * ((a - k j) / (k i - k j)) + s * (1 / (k i - k j)))
                     else (s, ds)) [0..<n] (1, 0)"
  show ?case
  proof (cases "i = n")
    case True
    then show ?thesis using Suc by (simp add: case_prod_beta)
  next
    case False
    have "((\<lambda>a. (a - k n) * (1 / (k i - k n))) has_real_derivative 1 * (1 / (k i - k n))) (at x)"
      by (intro DERIV_cmult_right) (rule derivative_eq_intros refl | simp)+
    then have t: "((\<lambda>a. (a - k n) / (k i - k n)) has_real_derivative 1 / (k i - k n)) (at x)"
      by simp
    have "((\<lambda>a. fst (?F a) * ((a - k n) / (k i - k n))) has_real_derivative
            fst (?F x) * (1 / (k i - k n)) + snd (?F x) * ((x - k n) / (k i - k n))) (at x)"
      by (rule DERIV_mult' [OF Suc t])
    then have "((\<lambda>a. fst (?F a) * ((a - k n) / (k i - k n))) has_real_derivative
            snd (?F x) * ((x - k n) / (k i - k n)) + fst (?F x) * (1 / (k i - k n))) (at x)"
      by (simp only: add.commute)
    moreover have "fst (fold (\<lambda>j (s, ds).
                     if i \<noteq> j
                     then (s * ((a - k j) / (k i - k j)),
                           ds * ((a - k j) / (k i - k j)) + s * (1 / (k i - k j)))
                     else (s, ds)) [0..<Suc n] (1, 0))
                   = fst (?F a) * ((a - k n) / (k i - k n))" for a
      unfolding fold_upt_Suc using False by (simp add: case_prod_beta)
    moreover have "snd (fold (\<lambda>j (s, ds).
                     if i \<noteq> j
                     then (s * ((x - k j) / (k i - k j)),
                           ds * ((x - k j) / (k i - k j)) + s * (1 / (k i - k j)))
                     else (s, ds)) [0..<Suc n] (1, 0))
                   = snd (?F x) * ((x - k n) / (k i - k n)) + fst (?F x) * (1 / (k i - k n))"
      unfolding fold_upt_Suc using False by (simp add: case_prod_beta)
    ultimately show ?thesis by (simp only:)
  qed
qed

lemma lagrangeSFKnots_deriv_is_derivative:
  assumes "i < n"
  shows "((\<lambda>a. fst (lagrangeSFKnots_deriv a k n) i) has_real_derivative
            snd (lagrangeSFKnots_deriv x k n) i) (at x)"
  using assms fold_lagrange_term_has_derivative [of i k n x]
  unfolding lagrangeSFKnots_deriv_def fold_write2 by simp

text \<open>\<open>jacobian2d\<close> returns the determinant and, where it is not zero, the inverse.\<close>

lemma jacobian2d_inverse:
  fixes Xd0 Xd1 Xd2 Xd3 :: real
  assumes "Xd0 * Xd3 - Xd1 * Xd2 \<noteq> 0"
  shows "(case jacobian2d (Xd0, Xd1, Xd2, Xd3) of (h, J0, J1, J2, J3) \<Rightarrow>
           h = Xd0 * Xd3 - Xd1 * Xd2
         \<and> J0 * Xd0 + J1 * Xd2 = 1 \<and> J0 * Xd1 + J1 * Xd3 = 0
         \<and> J2 * Xd0 + J3 * Xd2 = 0 \<and> J2 * Xd1 + J3 * Xd3 = 1)"
proof -
  let ?h = "Xd0 * Xd3 - Xd1 * Xd2"
  have a: "Xd3 * (1 / ?h) * Xd0 + - Xd1 * (1 / ?h) * Xd2 = ?h / ?h"
    by (simp add: field_simps)
  have b: "- Xd2 * (1 / ?h) * Xd1 + Xd0 * (1 / ?h) * Xd3 = ?h / ?h"
    by (simp add: field_simps)
  show ?thesis
    using assms a b by (simp add: jacobian2d_def Let_def)
qed

section \<open>The order-2 element on the unit square\<close>

text \<open>
  The bilinear shape functions of the order-2 element at a point \<open>(a, b)\<close>, and the
  Jacobian transform of the unit square, whose nodes are \<open>(0,0)\<close>, \<open>(1,0)\<close>, \<open>(0,1)\<close>,
  \<open>(1,1)\<close> in the element's node order.
\<close>

lemma lagrange_linear:
  "lagrangeSFKnots_deriv (a :: real) ((\<lambda>_. 0)(0 := - 1, Suc 0 := 1)) 2 =
     ((\<lambda>_. 0)(0 := (1 - a) / 2, Suc 0 := (1 + a) / 2), (\<lambda>_. 0)(0 := - (1 / 2), Suc 0 := 1 / 2))"
  by (simp add: lagrangeSFKnots_deriv_def upt_2 fun_eq_iff field_simps)

lemma grid2_array:
  fixes na nb :: array
  shows "(\<lambda>q. if q < 2 * 2 then na (q mod 2) * nb (q div 2) else 0)
       = array_of [na 0 * nb 0, na 1 * nb 0, na 0 * nb 1, na 1 * nb 1]"
proof (rule ext)
  fix q :: nat
  consider "q = 0" | "q = 1" | "q = 2" | "q = 3" | "4 \<le> q" by linarith
  then show "(if q < 2 * 2 then na (q mod 2) * nb (q div 2) else 0)
       = array_of [na 0 * nb 0, na 1 * nb 0, na 0 * nb 1, na 1 * nb 1] q"
    by cases (simp_all add: array_of_4_apply)
qed

lemma bilinear_shape_functions:
  "getShapeFunctions_deriv (FElibrary_model tables) (PoissonQuad 2 f') (a, b) =
     (array_of [(1 - a) / 2 * ((1 - b) / 2), (1 + a) / 2 * ((1 - b) / 2),
                (1 - a) / 2 * ((1 + b) / 2), (1 + a) / 2 * ((1 + b) / 2)],
      array_of [- (1 / 2) * ((1 - b) / 2), 1 / 2 * ((1 - b) / 2),
                - (1 / 2) * ((1 + b) / 2), 1 / 2 * ((1 + b) / 2)],
      array_of [(1 - a) / 2 * (- (1 / 2)), (1 + a) / 2 * (- (1 / 2)),
                (1 - a) / 2 * (1 / 2), (1 + a) / 2 * (1 / 2)])"
proof -
  let ?k = "(\<lambda>_. 0)(0 := - 1, Suc 0 := 1) :: array"
  have k: "pq_knots (PoissonQuad 2 f') = ?k"
    by (simp add: PoissonQuad_knots)
  have "getShapeFunctions_deriv (FElibrary_model tables) (PoissonQuad 2 f') (a, b) =
     ((\<lambda>q. if q < 2 * 2 then fst (lagrangeSFKnots_deriv a ?k 2) (q mod 2)
                                * fst (lagrangeSFKnots_deriv b ?k 2) (q div 2) else 0),
      (\<lambda>q. if q < 2 * 2 then snd (lagrangeSFKnots_deriv a ?k 2) (q mod 2)
                                * fst (lagrangeSFKnots_deriv b ?k 2) (q div 2) else 0),
      (\<lambda>q. if q < 2 * 2 then fst (lagrangeSFKnots_deriv a ?k 2) (q mod 2)
                                * snd (lagrangeSFKnots_deriv b ?k 2) (q div 2) else 0))"
    unfolding getShapeFunctions_deriv_closed Let_def
    by (simp only: PoissonQuad_order k FElibrary.simps FElibrary_model_def fst_conv snd_conv)
  also have "\<dots> =
     (array_of [(1 - a) / 2 * ((1 - b) / 2), (1 + a) / 2 * ((1 - b) / 2),
                (1 - a) / 2 * ((1 + b) / 2), (1 + a) / 2 * ((1 + b) / 2)],
      array_of [- (1 / 2) * ((1 - b) / 2), 1 / 2 * ((1 - b) / 2),
                - (1 / 2) * ((1 + b) / 2), 1 / 2 * ((1 + b) / 2)],
      array_of [(1 - a) / 2 * (- (1 / 2)), (1 + a) / 2 * (- (1 / 2)),
                (1 - a) / 2 * (1 / 2), (1 + a) / 2 * (1 / 2)])"
    unfolding grid2_array [of "fst (lagrangeSFKnots_deriv a ?k 2)" "fst (lagrangeSFKnots_deriv b ?k 2)"]
      grid2_array [of "snd (lagrangeSFKnots_deriv a ?k 2)" "fst (lagrangeSFKnots_deriv b ?k 2)"]
      grid2_array [of "fst (lagrangeSFKnots_deriv a ?k 2)" "snd (lagrangeSFKnots_deriv b ?k 2)"]
    by (simp add: lagrange_linear)
  finally show ?thesis .
qed

lemma unit_square_transform:
  "getJacobianTransform (PoissonQuad 2 f')
     (array_of [- (1 / 2) * ((1 - b) / 2), 1 / 2 * ((1 - b) / 2),
                - (1 / 2) * ((1 + b) / 2), 1 / 2 * ((1 + b) / 2)])
     (array_of [(1 - a) / 2 * (- (1 / 2)), (1 + a) / 2 * (- (1 / 2)),
                (1 - a) / 2 * (1 / 2), (1 + a) / 2 * (1 / 2)])
     (array_of [0, 0, 0, 1, 0, 0, 0, 1, 0, 1, 1, 0])
   = (1 / 2, 0, 0, 1 / 2)"
  by (simp add: getJacobianTransform_def upt_4 array_of_def add_divide_distrib [symmetric])

section \<open>The residual accumulates\<close>

lemma addResidual_point_additive:
  "addResidual_point (lib :: real FElibrary) el Xpts vars m n r = (\<lambda>i. r i + addResidual_point lib el Xpts vars m n (\<lambda>_. 0) i)"
  by (simp add: addResidual_point_def Let_def fold_accumulate split: prod.splits)

lemma addResidual_shift:
  "addResidual (lib :: real FElibrary) el t r Xpts vars dv ddv = (\<lambda>i. r i + addResidual lib el t' (\<lambda>_. 0) Xpts vars dv' ddv' i)"
  unfolding addResidual_def
  by (rule fold_additive, rule fold_additive, rule addResidual_point_additive)

text \<open>
  C1. \<^verbatim>\<open>addResidual\<close> only adds to the caller's buffer: the result is the buffer it was
  given plus what the same call leaves in a zero buffer, a contribution that does not
  depend on \<^verbatim>\<open>time\<close>, \<^verbatim>\<open>dvars\<close> or \<^verbatim>\<open>ddvars\<close> (nor on any earlier call); and a second call
  with the same inputs on top of a first one into a zero buffer gives exactly twice the
  single-call result. Scalars are real numbers here.
\<close>

theorem addResidual_additive:
  "addResidual (lib :: real FElibrary) el time res Xpts vars dvars ddvars =
     (\<lambda>i. res i + addResidual lib el time' (\<lambda>_. 0) Xpts vars dvars' ddvars' i)
   \<and> addResidual lib el time (addResidual lib el time (\<lambda>_. 0) Xpts vars dvars ddvars)
        Xpts vars dvars ddvars =
     (\<lambda>i. 2 * addResidual lib el time (\<lambda>_. 0) Xpts vars dvars ddvars i)"
proof
  show "addResidual lib el time res Xpts vars dvars ddvars =
     (\<lambda>i. res i + addResidual lib el time' (\<lambda>_. 0) Xpts vars dvars' ddvars' i)"
    by (rule addResidual_shift)
  show "addResidual lib el time (addResidual lib el time (\<lambda>_. 0) Xpts vars dvars ddvars)
        Xpts vars dvars ddvars =
     (\<lambda>i. 2 * addResidual lib el time (\<lambda>_. 0) Xpts vars dvars ddvars i)"
    by (subst addResidual_shift [where t' = time and dv' = dvars and ddv' = ddvars]) simp
qed

section \<open>Partition of unity\<close>

lemma fold_lagrange_term:
  "fold (\<lambda>j s. if i \<noteq> j then s * t j else s) [0..<n] s0 = s0 * (\<Prod>j\<in>{0..<n} - {i}. t j)"
  for s0 :: real
proof (induction n)
  case 0
  show ?case by simp
next
  case (Suc n)
  show ?case
  proof (cases "i = n")
    case True
    then have "{0..<Suc n} - {i} = {0..<n} - {i}" by auto
    with True Suc show ?thesis by simp
  next
    case False
    then have "{0..<Suc n} - {i} = insert n ({0..<n} - {i})" by auto
    with False Suc show ?thesis by simp
  qed
qed

lemma lagrangeSFKnots_closed:
  "lagrangeSFKnots (a :: real) k n =
     (\<lambda>i. if i < n then (\<Prod>j\<in>{0..<n} - {i}. (a - k j) / (k i - k j)) else 0)"
  by (simp add: lagrangeSFKnots_def fold_write fold_lagrange_term)

lemma fold_lagrange_term_deriv:
  "fst (fold (\<lambda>j (s, ds). if i \<noteq> j then (s * t j, ds * t j + s * d j) else (s, ds)) [0..<n] (s0, ds0))
     = s0 * (\<Prod>j\<in>{0..<n} - {i}. t j)"
  for s0 :: real and ds0 :: real
proof (induction n)
  case 0
  show ?case by simp
next
  case (Suc n)
  show ?case
  proof (cases "i = n")
    case True
    then have "{0..<Suc n} - {i} = {0..<n} - {i}" by auto
    with True Suc show ?thesis by (simp add: case_prod_beta)
  next
    case False
    then have "{0..<Suc n} - {i} = insert n ({0..<n} - {i})" by auto
    with False Suc show ?thesis by (simp add: case_prod_beta)
  qed
qed

lemma lagrangeSFKnots_deriv_closed:
  "fst (lagrangeSFKnots_deriv (a :: real) k n) =
     (\<lambda>i. if i < n then (\<Prod>j\<in>{0..<n} - {i}. (a - k j) / (k i - k j)) else 0)"
  unfolding lagrangeSFKnots_deriv_def fold_write2 fst_conv fold_lagrange_term_deriv by (simp cong: if_cong)

text \<open>
  The Lagrange basis over pairwise distinct knots sums to one, by induction on the number
  of knots: adding the knot \<open>k n\<close> multiplies the \<open>i\<close>-th old basis function by
  \<open>(a - k n) / (k i - k n)\<close>, and the new one makes up the difference.
\<close>

lemma lagrange_step:
  fixes k :: array
  assumes inj: "inj_on k {0..<Suc n}" and i: "i < n"
  shows "(\<Prod>j\<in>{0..<n} - {i}. (a - k j) / (k i - k j)) * ((a - k i) / (k n - k i))
       = (\<Prod>j\<in>{0..<n}. (a - k j) / (k n - k j)) * (\<Prod>j\<in>{0..<n} - {i}. (k n - k j) / (k i - k j))"
proof -
  have ne_n: "k n - k j \<noteq> 0" if "j < n" for j
    using inj_on_eq_iff [OF inj, of n j] that by simp
  have ne_i: "k i - k j \<noteq> 0" if "j \<in> {0..<n} - {i}" for j
    using inj_on_eq_iff [OF inj, of i j] that i by simp
  have split: "(\<Prod>j\<in>{0..<n}. g j) = g i * (\<Prod>j\<in>{0..<n} - {i}. g j)" for g :: "nat \<Rightarrow> real"
    using i by (simp add: prod.remove)
  have Pi: "(\<Prod>j\<in>{0..<n} - {i}. k i - k j) \<noteq> 0"
    using ne_i by simp
  have Pn: "(\<Prod>j\<in>{0..<n} - {i}. k n - k j) \<noteq> 0"
    using ne_n by simp
  have ni: "k n - k i \<noteq> 0" using ne_n i by simp
  show ?thesis
    apply (subst split [of "\<lambda>j. (a - k j) / (k n - k j)"])
    apply (simp only: prod_dividef)
    using Pi Pn ni by (simp add: field_simps)
qed

lemma lagrange_partition_of_unity:
  fixes k :: array
  assumes "inj_on k {0..<n}" and "0 < n"
  shows "(\<Sum>i<n. \<Prod>j\<in>{0..<n} - {i}. (a - k j) / (k i - k j)) = 1"
  using assms
proof (induction n arbitrary: a)
  case 0
  then show ?case by simp
next
  case (Suc n)
  show ?case
  proof (cases "n = 0")
    case True
    then show ?thesis by simp
  next
    case False
    then have pos: "0 < n" by simp
    have inj: "inj_on k {0..<n}"
      using Suc.prems(1) by (rule inj_on_subset) auto
    have IH: "(\<Sum>i<n. \<Prod>j\<in>{0..<n} - {i}. (b - k j) / (k i - k j)) = 1" for b
      using Suc.IH [OF inj pos] .
    let ?L = "\<lambda>b i. \<Prod>j\<in>{0..<n} - {i}. (b - k j) / (k i - k j)"
    let ?W = "\<Prod>j\<in>{0..<n}. (a - k j) / (k n - k j)"
    have last: "(\<Prod>j\<in>{0..<Suc n} - {n}. (a - k j) / (k n - k j)) = ?W"
    proof -
      have "{0..<Suc n} - {n} = {0..<n}" by auto
      then show ?thesis by simp
    qed
    have inner: "(\<Prod>j\<in>{0..<Suc n} - {i}. (a - k j) / (k i - k j))
                 = ?L a i - ?W * ?L (k n) i" if i: "i < n" for i
    proof -
      have set: "{0..<Suc n} - {i} = insert n ({0..<n} - {i})" using i by auto
      have ne: "k i - k n \<noteq> 0"
        using inj_on_eq_iff [OF Suc.prems(1), of i n] i by simp
      have "(\<Prod>j\<in>{0..<Suc n} - {i}. (a - k j) / (k i - k j))
            = ?L a i * ((a - k n) / (k i - k n))"
        by (simp add: set mult.commute)
      also have "(a - k n) / (k i - k n) = 1 - (a - k i) / (k n - k i)"
        using ne by (simp add: field_simps)
      also have "?L a i * (1 - (a - k i) / (k n - k i))
                 = ?L a i - ?L a i * ((a - k i) / (k n - k i))"
        by (simp add: algebra_simps)
      also have "?L a i * ((a - k i) / (k n - k i)) = ?W * ?L (k n) i"
        by (rule lagrange_step [OF Suc.prems(1) i])
      finally show ?thesis .
    qed
    have "(\<Sum>i<Suc n. \<Prod>j\<in>{0..<Suc n} - {i}. (a - k j) / (k i - k j))
          = (\<Sum>i<n. ?L a i - ?W * ?L (k n) i) + ?W"
      using inner last by simp
    also have "(\<Sum>i<n. ?L a i - ?W * ?L (k n) i) = (\<Sum>i<n. ?L a i) - ?W * (\<Sum>i<n. ?L (k n) i)"
      by (simp add: sum_subtractf sum_distrib_left)
    also have "\<dots> = 1 - ?W"
      by (simp add: IH)
    finally show ?thesis by simp
  qed
qed

text \<open>The knots the constructor sets are pairwise distinct.\<close>

lemma cosine_knots_inj:
  assumes "2 \<le> n"
  shows "inj_on (\<lambda>i. if i < n then - cos (pi * real i / (real n - 1)) else 0) {0..<n}"
proof (rule inj_onI)
  fix i j
  assume i: "i \<in> {0..<n}" and j: "j \<in> {0..<n}"
    and eq: "(if i < n then - cos (pi * real i / (real n - 1)) else 0)
           = (if j < n then - cos (pi * real j / (real n - 1)) else 0)"
  let ?d = "(real n - 1)"
  have d: "0 < ?d" using assms by simp
  have dn: "real l \<le> ?d" if "l < n" for l using that by (simp add: le_diff_eq)
  have range: "0 \<le> pi * real l / ?d \<and> pi * real l / ?d \<le> pi" if "l < n" for l
  proof
    show "0 \<le> pi * real l / ?d" using d by simp
    have "real l \<le> ?d" using that by (rule dn)
    then have "pi * real l \<le> pi * ?d" by (simp add: mult_left_mono)
    then show "pi * real l / ?d \<le> pi" using d by (simp add: field_simps)
  qed
  have ri: "0 \<le> pi * real i / ?d" "pi * real i / ?d \<le> pi"
    using range [of i] i by simp_all
  have rj: "0 \<le> pi * real j / ?d" "pi * real j / ?d \<le> pi"
    using range [of j] j by simp_all
  from eq i j have ceq: "cos (pi * real i / ?d) = cos (pi * real j / ?d)" by simp
  have "pi * real i / ?d = pi * real j / ?d"
    by (rule cos_inj_pi [OF ri rj ceq])
  then have "real i = real j" using d by simp
  then show "i = j" by simp
qed

lemma PoissonQuad_knots_inj: "inj_on (pq_knots (PoissonQuad n f')) {0..<n}"
proof -
  consider "n = 2" | "n = 3" | "n < 2" | "n \<noteq> 2" "n \<noteq> 3" "2 \<le> n" by linarith
  then show ?thesis
  proof cases
    case 1
    have "{0..<2::nat} = {0, 1}" by auto
    with 1 show ?thesis by (simp add: PoissonQuad_knots)
  next
    case 2
    have "{0..<3::nat} = {0, 1, 2}" by auto
    with 2 show ?thesis by (simp add: PoissonQuad_knots)
  next
    case 3
    show ?thesis
    proof (rule inj_onI)
      fix i j
      assume "i \<in> {0..<n}" and "j \<in> {0..<n}"
      with 3 show "i = j" by simp
    qed
  next
    case 4
    then show ?thesis by (simp add: PoissonQuad_knots cosine_knots_inj)
  qed
qed

text \<open>
  C3. For every order from 1 on and every parametric point, the shape functions of both
  overloads of \<^verbatim>\<open>getShapeFunctions\<close>, built over the knots the constructor sets, sum to
  exactly 1 over the \<open>order * order\<close> nodes. Scalars are real numbers here.
\<close>

theorem shape_functions_partition_of_unity:
  assumes "1 \<le> order'"
  shows "(\<Sum>i<order' * order'.
            getShapeFunctions (FElibrary_model tables) (PoissonQuad order' f') pt i) = 1
       \<and> (\<Sum>i<order' * order'.
            fst (getShapeFunctions_deriv (FElibrary_model tables) (PoissonQuad order' f') pt) i) = 1"
proof -
  let ?k = "pq_knots (PoissonQuad order' f')"
  let ?L = "\<lambda>a i. if i < order' then (\<Prod>j\<in>{0..<order'} - {i}. (a - ?k j) / (?k i - ?k j)) else 0"
  have pos: "0 < order'" using assms by simp
  have one: "(\<Sum>i<order'. ?L a i) = 1" for a
    using lagrange_partition_of_unity [OF PoissonQuad_knots_inj pos, where a = a] by simp
  have grid: "(\<Sum>q<order' * order'. ?L (fst pt) (q mod order') * ?L (snd pt) (q div order')) = 1"
    using sum_grid [where f = "?L (fst pt)" and g = "?L (snd pt)" and n = order' and J = order']
    by (simp only: one mult_1)
  have "(\<Sum>i<order' * order'.
            getShapeFunctions (FElibrary_model tables) (PoissonQuad order' f') pt i)
        = (\<Sum>q<order' * order'. ?L (fst pt) (q mod order') * ?L (snd pt) (q div order'))"
    by (rule sum.cong)
       (simp_all add: getShapeFunctions_closed FElibrary_model_def lagrangeSFKnots_closed)
  moreover have "(\<Sum>i<order' * order'.
            fst (getShapeFunctions_deriv (FElibrary_model tables) (PoissonQuad order' f') pt) i)
        = (\<Sum>q<order' * order'. ?L (fst pt) (q mod order') * ?L (snd pt) (q div order'))"
    by (rule sum.cong)
       (simp_all add: getShapeFunctions_deriv_closed FElibrary_model_def Let_def
          lagrangeSFKnots_deriv_closed)
  ultimately show ?thesis using grid by simp
qed

text \<open>The order-2 element at the point \<open>(1/2, 1/3)\<close>.\<close>

theorem shape_functions_partition_of_unity_witness:
  "(1::nat) \<le> 2
   \<and> (\<Sum>i<2 * 2. getShapeFunctions (FElibrary_model (\<lambda>_. gauss2PtsWts))
                    (PoissonQuad 2 (array_of [1, 1, 1, 1])) (1 / 2, 1 / 3) i) = 1
   \<and> (\<Sum>i<2 * 2. fst (getShapeFunctions_deriv (FElibrary_model (\<lambda>_. gauss2PtsWts))
                    (PoissonQuad 2 (array_of [1, 1, 1, 1])) (1 / 2, 1 / 3)) i) = 1"
proof -
  have h: "(1::nat) \<le> 2" by simp
  show ?thesis
    using h shape_functions_partition_of_unity
          [OF h, of "\<lambda>_. gauss2PtsWts" "array_of [1, 1, 1, 1]" "(1 / 2, 1 / 3)"]
    by (rule conjI)
qed

section \<open>The Jacobian: linear in alpha, symmetric\<close>

lemma addJacobian_point_closed:
  "addJacobian_point (lib :: real FElibrary) el alpha Xpts m n a =
     (\<lambda>p. a p + alpha * addJacobian_point lib el 1 Xpts m n (\<lambda>_. 0) p)"
  unfolding addJacobian_point_def Let_def mult.assoc fold_accumulate_grid
  by (simp add: case_prod_beta fun_eq_iff algebra_simps)

lemma addJacobian_point_symmetric:
  assumes "i < pq_order el * pq_order el" and "j < pq_order el * pq_order el"
  shows "addJacobian_point (lib :: real FElibrary) el alpha Xpts m n (\<lambda>_. 0)
           (i + j * (pq_order el * pq_order el))
       = addJacobian_point lib el alpha Xpts m n (\<lambda>_. 0) (j + i * (pq_order el * pq_order el))"
proof -
  let ?K = "pq_order el * pq_order el"
  have lt: "i + j * ?K < ?K * ?K" "j + i * ?K < ?K * ?K"
  proof -
    have "i + j * ?K < ?K + j * ?K" using assms by simp
    also have "\<dots> = Suc j * ?K" by simp
    also have "\<dots> \<le> ?K * ?K" using assms by (intro mult_le_mono1) simp
    finally show "i + j * ?K < ?K * ?K" .
    have "j + i * ?K < ?K + i * ?K" using assms by simp
    also have "\<dots> = Suc i * ?K" by simp
    also have "\<dots> \<le> ?K * ?K" using assms by (intro mult_le_mono1) simp
    finally show "j + i * ?K < ?K * ?K" .
  qed
  have dm: "(i + j * ?K) mod ?K = i" "(i + j * ?K) div ?K = j"
           "(j + i * ?K) mod ?K = j" "(j + i * ?K) div ?K = i"
    using assms div_mod_block [of j ?K "i + j * ?K"] div_mod_block [of i ?K "j + i * ?K"]
    by simp_all
  have idx: "l + l' * pq_order el * pq_order el = l + l' * ?K" for l l'
    by simp
  show ?thesis
    unfolding addJacobian_point_def Let_def idx case_prod_beta fold_accumulate_grid
    by (simp only: lt dm if_True) (simp add: algebra_simps)
qed

lemma addJacobian_closed:
  "addJacobian (lib :: real FElibrary) el time mat alpha beta gamma Xpts vars dvars ddvars =
     (\<lambda>p. mat p + alpha * (\<Sum>m\<leftarrow>[0..<pq_order el]. \<Sum>n\<leftarrow>[0..<pq_order el].
                              addJacobian_point lib el 1 Xpts m n (\<lambda>_. 0) p))"
proof -
  have inner: "fold (\<lambda>n. addJacobian_point lib el alpha Xpts m n) ns r
       = (\<lambda>p. r p + (\<Sum>n\<leftarrow>ns. alpha * addJacobian_point lib el 1 Xpts m n (\<lambda>_. 0) p))"
    for m ns and r :: array
    by (rule fold_shift_sum) (rule addJacobian_point_closed)
  show ?thesis
    unfolding addJacobian_def
    by (subst fold_shift_sum [where D = "\<lambda>m p. \<Sum>n\<leftarrow>[0..<pq_order el].
              alpha * addJacobian_point lib el 1 Xpts m n (\<lambda>_. 0) p"])
       (simp_all add: inner sum_list_const_mult)
qed

text \<open>
  C7. What \<^verbatim>\<open>addJacobian\<close> adds to \<^verbatim>\<open>mat\<close> is \<open>alpha\<close> times what it adds for
  \<open>alpha = 1\<close>, whatever \<^verbatim>\<open>beta\<close>, \<^verbatim>\<open>gamma\<close>, \<^verbatim>\<open>time\<close> and the state arrays are, and
  \<open>alpha = 0\<close> leaves \<^verbatim>\<open>mat\<close> unchanged. Scalars are real numbers here.
\<close>

theorem addJacobian_linear_in_alpha:
  "addJacobian (lib :: real FElibrary) el time mat alpha beta gamma Xpts vars dvars ddvars =
     (\<lambda>p. mat p + alpha * addJacobian lib el time' (\<lambda>_. 0) 1 beta' gamma' Xpts vars' dvars' ddvars' p)
   \<and> addJacobian lib el time mat 0 beta gamma Xpts vars dvars ddvars = mat"
proof
  show "addJacobian lib el time mat alpha beta gamma Xpts vars dvars ddvars =
     (\<lambda>p. mat p + alpha * addJacobian lib el time' (\<lambda>_. 0) 1 beta' gamma' Xpts vars' dvars' ddvars' p)"
  proof -
    have "addJacobian lib el time' (\<lambda>_. 0) 1 beta' gamma' Xpts vars' dvars' ddvars'
          = (\<lambda>p. \<Sum>m\<leftarrow>[0..<pq_order el]. \<Sum>n\<leftarrow>[0..<pq_order el].
                              addJacobian_point lib el 1 Xpts m n (\<lambda>_. 0) p)"
      by (subst addJacobian_closed) simp
    then show ?thesis
      by (subst addJacobian_closed) simp
  qed
  show "addJacobian lib el time mat 0 beta gamma Xpts vars dvars ddvars = mat"
    by (subst addJacobian_closed) simp
qed

text \<open>
  C2. The increment of \<^verbatim>\<open>addJacobian\<close> is symmetric: for \<open>i, j < order * order\<close> the
  amount added to \<^verbatim>\<open>mat[i + j*order*order]\<close> equals the amount added to
  \<^verbatim>\<open>mat[j + i*order*order]\<close>.
\<close>

theorem addJacobian_symmetric:
  assumes "i < pq_order el * pq_order el" and "j < pq_order el * pq_order el"
  shows "addJacobian (lib :: real FElibrary) el time mat alpha beta gamma Xpts vars dvars ddvars
           (i + j * pq_order el * pq_order el) - mat (i + j * pq_order el * pq_order el)
       = addJacobian lib el time mat alpha beta gamma Xpts vars dvars ddvars
           (j + i * pq_order el * pq_order el) - mat (j + i * pq_order el * pq_order el)"
  unfolding addJacobian_closed mult.assoc
  by (simp add: addJacobian_point_symmetric [OF assms])

lemma unit_square_jacobian_point:
  "addJacobian_point (FElibrary_model tables) (PoissonQuad 2 (array_of [1, 1, 1, 1])) alpha
     (array_of [0, 0, 0, 1, 0, 0, 0, 1, 0, 1, 1, 0]) m n (\<lambda>_. 0) 9
   = - (alpha * (snd (tables 2) n * snd (tables 2) m)
        * ((1 - fst (tables 2) m * fst (tables 2) m) + (1 - fst (tables 2) n * fst (tables 2) n))) / 16"
proof -
  obtain pts wts where t: "tables 2 = (pts, wts)" by (cases "tables 2")
  let ?lib = "FElibrary_model tables"
  let ?el = "PoissonQuad 2 (array_of [1, 1, 1, 1])"
  have gp: "lib_getGaussPtsWts ?lib (pq_order ?el) = (pts, wts)"
    by (simp add: FElibrary_model_def t)
  have jac: "lib_jacobian2d ?lib (1 / 2, 0, 0, 1 / 2) = (1 / 4, 2, 0, 0, 2)"
    by (simp add: FElibrary_model_def jacobian2d_def)
  have idx: "l + l' * pq_order ?el * pq_order ?el = l + l' * 4" for l l'
    by simp
  have four: "pq_order ?el * pq_order ?el = 4" by simp
  show ?thesis
    unfolding addJacobian_point_def
    apply (simp only: gp Let_def prod.case bilinear_shape_functions unit_square_transform jac
        idx four fold_accumulate_grid t fst_conv snd_conv)
    apply (simp add: array_of_4_apply field_simps)
    done
qed

lemma unit_square_jacobian_entry:
  "addJacobian (FElibrary_model (\<lambda>_. gauss2PtsWts)) (PoissonQuad 2 (array_of [1, 1, 1, 1])) 0
        (\<lambda>_. 0) 1 0 0 (array_of [0, 0, 0, 1, 0, 0, 0, 1, 0, 1, 1, 0]) (\<lambda>_. 0) (\<lambda>_. 0) (\<lambda>_. 0) 9
   = - 1 / 3"
  unfolding addJacobian_closed unit_square_jacobian_point PoissonQuad_order upt_2
  by (simp add: gauss2PtsWts_def)

text \<open>
  The entries 9 and 6 of the order-2 element on the unit square, which couple the opposite
  nodes \<open>(1,0)\<close> and \<open>(0,1)\<close>: both are \<open>-1/3\<close>.
\<close>

theorem addJacobian_symmetric_witness:
  "(1::nat) < 2 * 2 \<and> (2::nat) < 2 * 2
   \<and> addJacobian (FElibrary_model (\<lambda>_. gauss2PtsWts)) (PoissonQuad 2 (array_of [1, 1, 1, 1])) 0
        (\<lambda>_. 0) 1 0 0 (array_of [0, 0, 0, 1, 0, 0, 0, 1, 0, 1, 1, 0]) (\<lambda>_. 0) (\<lambda>_. 0) (\<lambda>_. 0) 9
     = - 1 / 3
   \<and> addJacobian (FElibrary_model (\<lambda>_. gauss2PtsWts)) (PoissonQuad 2 (array_of [1, 1, 1, 1])) 0
        (\<lambda>_. 0) 1 0 0 (array_of [0, 0, 0, 1, 0, 0, 0, 1, 0, 1, 1, 0]) (\<lambda>_. 0) (\<lambda>_. 0) (\<lambda>_. 0) 6
     = - 1 / 3"
proof -
  let ?el = "PoissonQuad 2 (array_of [1, 1, 1, 1])"
  have h1: "1 < pq_order ?el * pq_order ?el" and h2: "2 < pq_order ?el * pq_order ?el"
    by simp_all
  show ?thesis
    using addJacobian_symmetric [OF h1 h2, of "FElibrary_model (\<lambda>_. gauss2PtsWts)" 0 "\<lambda>_. 0" 1 0 0
        "array_of [0, 0, 0, 1, 0, 0, 0, 1, 0, 1, 1, 0]" "\<lambda>_. 0" "\<lambda>_. 0" "\<lambda>_. 0"]
      unit_square_jacobian_entry
    by simp
qed

section \<open>The residual of the unit square\<close>

lemma unit_square_point:
  "addResidual_point (FElibrary_model tables) (PoissonQuad 2 (array_of [1, 1, 1, 1]))
     (array_of [0, 0, 0, 1, 0, 0, 0, 1, 0, 1, 1, 0]) (\<lambda>_. 0) m n r =
   (\<lambda>i. r i + (if i < 4
                then - (1 / 4 * (snd (tables 2) n * snd (tables 2) m)
                    * array_of [(1 - fst (tables 2) n) / 2 * ((1 - fst (tables 2) m) / 2),
                                (1 + fst (tables 2) n) / 2 * ((1 - fst (tables 2) m) / 2),
                                (1 - fst (tables 2) n) / 2 * ((1 + fst (tables 2) m) / 2),
                                (1 + fst (tables 2) n) / 2 * ((1 + fst (tables 2) m) / 2)] i)
                else 0))"
proof -
  obtain pts wts where t: "tables 2 = (pts, wts)" by (cases "tables 2")
  let ?lib = "FElibrary_model tables"
  let ?el = "PoissonQuad 2 (array_of [1, 1, 1, 1])"
  have gp: "lib_getGaussPtsWts ?lib (pq_order ?el) = (pts, wts)"
    by (simp add: FElibrary_model_def t)
  have jac: "lib_jacobian2d ?lib (1 / 2, 0, 0, 1 / 2) = (1 / 4, 2, 0, 0, 2)"
    by (simp add: FElibrary_model_def jacobian2d_def)
  have f1: "pq_f ?el i = 1" if "i < 4" for i
    using that by (simp add: PoissonQuad_f array_of_4_apply)
  have fval: "fold (\<lambda>i (fval, px, py).
                    (fval + N i * pq_f ?el i,
                     px + (Na i * J0 + Nb i * J2) * (0::real),
                     py + (Na i * J1 + Nb i * J3) * 0))
              [0..<4] (0, 0, 0) = (N 0 + N 1 + N 2 + N 3, 0, 0)"
    for N Na Nb :: array and J0 J1 J2 J3 :: real
    by (simp add: upt_4 f1)
  have sum1: "array_of [(1 - a) / 2 * ((1 - b) / 2), (1 + a) / 2 * ((1 - b) / 2),
                        (1 - a) / 2 * ((1 + b) / 2), (1 + a) / 2 * ((1 + b) / 2)] 0
            + array_of [(1 - a) / 2 * ((1 - b) / 2), (1 + a) / 2 * ((1 - b) / 2),
                        (1 - a) / 2 * ((1 + b) / 2), (1 + a) / 2 * ((1 + b) / 2)] 1
            + array_of [(1 - a) / 2 * ((1 - b) / 2), (1 + a) / 2 * ((1 - b) / 2),
                        (1 - a) / 2 * ((1 + b) / 2), (1 + a) / 2 * ((1 + b) / 2)] 2
            + array_of [(1 - a) / 2 * ((1 - b) / 2), (1 + a) / 2 * ((1 - b) / 2),
                        (1 - a) / 2 * ((1 + b) / 2), (1 + a) / 2 * ((1 + b) / 2)] 3 = 1"
    for a b :: real
    by (simp add: array_of_4_apply field_simps)
  have four: "pq_order ?el * pq_order ?el = 4" by simp
  show ?thesis
    unfolding addResidual_point_def
    apply (simp only: gp Let_def prod.case bilinear_shape_functions unit_square_transform jac
        fval sum1 fold_accumulate four t fst_conv snd_conv)
    apply (simp add: fun_eq_iff)
    done
qed

text \<open>
  C4. One element of order 2 on the unit square, nodes \<open>(0,0)\<close>, \<open>(1,0)\<close>, \<open>(0,1)\<close>,
  \<open>(1,1)\<close> in the element's node order with third coordinate 0, source
  \<open>f = [1,1,1,1]\<close>, zero state, 2 by 2 Gauss quadrature: \<^verbatim>\<open>addResidual\<close> into a zero
  buffer leaves \<open>-1/4\<close> at each of the four nodes.
\<close>

theorem unit_square_residual:
  assumes "tables 2 = gauss2PtsWts"
  shows "addResidual (FElibrary_model tables) (PoissonQuad 2 (array_of [1, 1, 1, 1])) time
           (\<lambda>_. 0) (array_of [0, 0, 0, 1, 0, 0, 0, 1, 0, 1, 1, 0]) (\<lambda>_. 0) dvars ddvars
         = array_of [- 1 / 4, - 1 / 4, - 1 / 4, - 1 / 4]"
proof -
  have pts: "fst (tables 2) 0 = - (1 / sqrt 3)" "fst (tables 2) (Suc 0) = 1 / sqrt 3"
    and wts: "snd (tables 2) 0 = 1" "snd (tables 2) (Suc 0) = 1"
    by (simp_all add: assms gauss2PtsWts_def)
  show ?thesis
    unfolding addResidual_def PoissonQuad_order upt_2 fold_simps unit_square_point o_apply
    apply (rule ext)
    apply (simp add: array_of_4_apply pts wts)
    apply (simp add: field_simps)
    done
qed

text \<open>The library that hands out the two-point rule, read at node 3.\<close>

theorem unit_square_residual_witness:
  "(\<lambda>_. gauss2PtsWts) (2::nat) = gauss2PtsWts
   \<and> addResidual (FElibrary_model (\<lambda>_. gauss2PtsWts)) (PoissonQuad 2 (array_of [1, 1, 1, 1])) 0
           (\<lambda>_. 0) (array_of [0, 0, 0, 1, 0, 0, 0, 1, 0, 1, 1, 0]) (\<lambda>_. 0) (\<lambda>_. 0) (\<lambda>_. 0) 3
         = - 1 / 4"
proof -
  have h: "(\<lambda>_. gauss2PtsWts) (2::nat) = gauss2PtsWts" by simp
  show ?thesis
    using unit_square_residual [OF h, of 0 "\<lambda>_. 0" "\<lambda>_. 0"]
    by (simp add: array_of_4_apply)
qed

section \<open>Output connectivity\<close>

lemma connectivity_row:
  fixes a b c d :: "nat \<Rightarrow> 'v"
  defines "step \<equiv> \<lambda>n (con, p).
             (con(4 * p := a n, 4 * p + 1 := b n, 4 * p + 2 := c n, 4 * p + 3 := d n), Suc p)"
  shows "snd (fold step [0..<k] (con0, p0)) = p0 + k
       \<and> (\<forall>n<k. fst (fold step [0..<k] (con0, p0)) (4 * (p0 + n)) = a n
               \<and> fst (fold step [0..<k] (con0, p0)) (4 * (p0 + n) + 1) = b n
               \<and> fst (fold step [0..<k] (con0, p0)) (4 * (p0 + n) + 2) = c n
               \<and> fst (fold step [0..<k] (con0, p0)) (4 * (p0 + n) + 3) = d n)
       \<and> (\<forall>q. q < 4 * p0 \<or> 4 * (p0 + k) \<le> q \<longrightarrow> fst (fold step [0..<k] (con0, p0)) q = con0 q)"
proof (induction k)
  case 0
  show ?case by simp
next
  case (Suc k)
  obtain con1 p1 where old: "fold step [0..<k] (con0, p0) = (con1, p1)"
    by (cases "fold step [0..<k] (con0, p0)")
  have p1: "p1 = p0 + k"
    and inside: "\<And>n. n < k \<Longrightarrow> con1 (4 * (p0 + n)) = a n \<and> con1 (4 * (p0 + n) + 1) = b n
                   \<and> con1 (4 * (p0 + n) + 2) = c n \<and> con1 (4 * (p0 + n) + 3) = d n"
    and outside: "\<And>q. q < 4 * p0 \<or> 4 * (p0 + k) \<le> q \<Longrightarrow> con1 q = con0 q"
    using Suc.IH unfolding old fst_conv snd_conv by blast+
  have new: "fold step [0..<Suc k] (con0, p0)
             = (con1(4 * (p0 + k) := a k, 4 * (p0 + k) + 1 := b k,
                     4 * (p0 + k) + 2 := c k, 4 * (p0 + k) + 3 := d k), p0 + Suc k)"
    unfolding fold_upt_Suc old by (simp add: step_def p1)
  show ?case
    unfolding new
  proof (intro conjI allI impI)
    show "snd (con1(4 * (p0 + k) := a k, 4 * (p0 + k) + 1 := b k,
                     4 * (p0 + k) + 2 := c k, 4 * (p0 + k) + 3 := d k), p0 + Suc k) = p0 + Suc k"
      by simp
  next
    fix n assume n: "n < Suc k"
    show "fst (con1(4 * (p0 + k) := a k, 4 * (p0 + k) + 1 := b k,
                     4 * (p0 + k) + 2 := c k, 4 * (p0 + k) + 3 := d k), p0 + Suc k) (4 * (p0 + n)) = a n"
      using n inside [of n] by (cases "n = k") auto
    show "fst (con1(4 * (p0 + k) := a k, 4 * (p0 + k) + 1 := b k,
                     4 * (p0 + k) + 2 := c k, 4 * (p0 + k) + 3 := d k), p0 + Suc k) (4 * (p0 + n) + 1) = b n"
      using n inside [of n] by (cases "n = k") auto
    show "fst (con1(4 * (p0 + k) := a k, 4 * (p0 + k) + 1 := b k,
                     4 * (p0 + k) + 2 := c k, 4 * (p0 + k) + 3 := d k), p0 + Suc k) (4 * (p0 + n) + 2) = c n"
      using n inside [of n] by (cases "n = k") auto
    show "fst (con1(4 * (p0 + k) := a k, 4 * (p0 + k) + 1 := b k,
                     4 * (p0 + k) + 2 := c k, 4 * (p0 + k) + 3 := d k), p0 + Suc k) (4 * (p0 + n) + 3) = d n"
      using n inside [of n] by (cases "n = k") auto
  next
    fix q assume "q < 4 * p0 \<or> 4 * (p0 + Suc k) \<le> q"
    then show "fst (con1(4 * (p0 + k) := a k, 4 * (p0 + k) + 1 := b k,
                     4 * (p0 + k) + 2 := c k, 4 * (p0 + k) + 3 := d k), p0 + Suc k) q = con0 q"
      using outside [of q] by auto
  qed
qed

lemma connectivity_grid:
  fixes a b c d :: "nat \<Rightarrow> nat \<Rightarrow> 'v" and k :: nat
  defines "row \<equiv> \<lambda>m. fold (\<lambda>n (con, p).
             (con(4 * p := a n m, 4 * p + 1 := b n m, 4 * p + 2 := c n m, 4 * p + 3 := d n m),
              Suc p)) [0..<k]"
  shows "snd (fold row [0..<J] (con0, 0)) = J * k
       \<and> (\<forall>m<J. \<forall>n<k.
              fst (fold row [0..<J] (con0, 0)) (4 * (n + m * k)) = a n m
            \<and> fst (fold row [0..<J] (con0, 0)) (4 * (n + m * k) + 1) = b n m
            \<and> fst (fold row [0..<J] (con0, 0)) (4 * (n + m * k) + 2) = c n m
            \<and> fst (fold row [0..<J] (con0, 0)) (4 * (n + m * k) + 3) = d n m)
       \<and> (\<forall>q. 4 * (J * k) \<le> q \<longrightarrow> fst (fold row [0..<J] (con0, 0)) q = con0 q)"
proof (induction J)
  case 0
  show ?case by simp
next
  case (Suc J)
  obtain con1 p1 where old: "fold row [0..<J] (con0, 0) = (con1, p1)"
    by (cases "fold row [0..<J] (con0, 0)")
  have p1: "p1 = J * k"
    and inside: "\<And>m n. m < J \<Longrightarrow> n < k \<Longrightarrow>
                   con1 (4 * (n + m * k)) = a n m \<and> con1 (4 * (n + m * k) + 1) = b n m
                 \<and> con1 (4 * (n + m * k) + 2) = c n m \<and> con1 (4 * (n + m * k) + 3) = d n m"
    and outside: "\<And>q. 4 * (J * k) \<le> q \<Longrightarrow> con1 q = con0 q"
    using Suc.IH unfolding old fst_conv snd_conv by blast+
  obtain con2 p2 where new: "row J (con1, J * k) = (con2, p2)"
    by (cases "row J (con1, J * k)")
  have step: "fold row [0..<Suc J] (con0, 0) = (con2, p2)"
    unfolding fold_upt_Suc old p1 new ..
  have R: "snd (row J (con1, J * k)) = J * k + k
       \<and> (\<forall>n<k. fst (row J (con1, J * k)) (4 * (J * k + n)) = a n J
               \<and> fst (row J (con1, J * k)) (4 * (J * k + n) + 1) = b n J
               \<and> fst (row J (con1, J * k)) (4 * (J * k + n) + 2) = c n J
               \<and> fst (row J (con1, J * k)) (4 * (J * k + n) + 3) = d n J)
       \<and> (\<forall>q. q < 4 * (J * k) \<or> 4 * (J * k + k) \<le> q \<longrightarrow> fst (row J (con1, J * k)) q = con1 q)"
    unfolding row_def by (rule connectivity_row)
  have p2: "p2 = J * k + k"
    and fresh: "\<And>n. n < k \<Longrightarrow>
                   con2 (4 * (J * k + n)) = a n J \<and> con2 (4 * (J * k + n) + 1) = b n J
                 \<and> con2 (4 * (J * k + n) + 2) = c n J \<and> con2 (4 * (J * k + n) + 3) = d n J"
    and kept: "\<And>q. q < 4 * (J * k) \<or> 4 * (J * k + k) \<le> q \<Longrightarrow> con2 q = con1 q"
    using R unfolding new fst_conv snd_conv by blast+
  have below: "4 * (n + m * k) + 3 < 4 * (J * k)" if "m < J" "n < k" for m n
  proof -
    have "n + m * k < Suc m * k" using that by simp
    also have "\<dots> \<le> J * k" using that by (intro mult_le_mono1) simp
    finally show ?thesis by simp
  qed
  show ?case
    unfolding step fst_conv snd_conv
  proof (intro conjI allI impI)
    show "p2 = Suc J * k" using p2 by simp
  next
    fix m n assume m: "m < Suc J" and n: "n < k"
    show "con2 (4 * (n + m * k)) = a n m"
      using below [of m n] inside [of m n] kept [of "4 * (n + m * k)"] fresh [of n] m n
      by (cases "m = J") (auto simp: add.commute)
    show "con2 (4 * (n + m * k) + 1) = b n m"
      using below [of m n] inside [of m n] kept [of "4 * (n + m * k) + 1"] fresh [of n] m n
      by (cases "m = J") (auto simp: add.commute)
    show "con2 (4 * (n + m * k) + 2) = c n m"
      using below [of m n] inside [of m n] kept [of "4 * (n + m * k) + 2"] fresh [of n] m n
      by (cases "m = J") (auto simp: add.commute)
    show "con2 (4 * (n + m * k) + 3) = d n m"
      using below [of m n] inside [of m n] kept [of "4 * (n + m * k) + 3"] fresh [of n] m n
      by (cases "m = J") (auto simp: add.commute)
  next
    fix q assume "4 * (Suc J * k) \<le> q"
    then show "con2 q = con0 q"
      using kept [of q] outside [of q] by (simp add: algebra_simps)
  qed
qed

lemma word_index:
  assumes "4 * p + 3 < 2 ^ 32"
  shows "unat (4 * (of_nat p :: c_int)) = 4 * p"
    and "unat (4 * (of_nat p :: c_int) + 1) = 4 * p + 1"
    and "unat (4 * (of_nat p :: c_int) + 2) = 4 * p + 2"
    and "unat (4 * (of_nat p :: c_int) + 3) = 4 * p + 3"
proof -
  have r: "unat (of_nat q :: c_int) = q" if "q < 2 ^ 32" for q
  proof -
    have "q mod 2 ^ LENGTH(32) = q" using that by simp
    then show ?thesis by (simp only: unat_of_nat)
  qed
  have e0: "4 * (of_nat p :: c_int) = of_nat (4 * p)"
    and e1: "4 * (of_nat p :: c_int) + 1 = of_nat (4 * p + 1)"
    and e2: "4 * (of_nat p :: c_int) + 2 = of_nat (4 * p + 2)"
    and e3: "4 * (of_nat p :: c_int) + 3 = of_nat (4 * p + 3)"
    by simp_all
  show "unat (4 * (of_nat p :: c_int)) = 4 * p"
    unfolding e0 by (rule r) (use assms in simp)
  show "unat (4 * (of_nat p :: c_int) + 1) = 4 * p + 1"
    unfolding e1 by (rule r) (use assms in simp)
  show "unat (4 * (of_nat p :: c_int) + 2) = 4 * p + 2"
    unfolding e2 by (rule r) (use assms in simp)
  show "unat (4 * (of_nat p :: c_int) + 3) = 4 * p + 3"
    unfolding e3 by (rule r) (use assms in simp)
qed

lemma connectivity_row_word:
  fixes a b c d :: "nat \<Rightarrow> 'v"
  assumes "4 * (p0 + k) \<le> 2 ^ 32"
  shows "fold (\<lambda>n (con, p).
             (con(unat (4 * p) := a n, unat (4 * p + 1) := b n,
                  unat (4 * p + 2) := c n, unat (4 * p + 3) := d n), p + 1))
           [0..<k] (con0, (of_nat p0 :: c_int))
       = (case fold (\<lambda>n (con, p).
             (con(4 * p := a n, 4 * p + 1 := b n, 4 * p + 2 := c n, 4 * p + 3 := d n), Suc p))
           [0..<k] (con0, p0) of (con, p) \<Rightarrow> (con, of_nat p))"
  using assms
proof (induction k)
  case 0
  show ?case by simp
next
  case (Suc k)
  let ?N = "fold (\<lambda>n (con, p).
             (con(4 * p := a n, 4 * p + 1 := b n, 4 * p + 2 := c n, 4 * p + 3 := d n), Suc p))
           [0..<k] (con0, p0)"
  obtain con1 p1 where old: "?N = (con1, p1)" by (cases ?N)
  have "snd ?N = p0 + k"
    using connectivity_row [of a b c d k con0 p0] by blast
  then have p1: "p1 = p0 + k" unfolding old by simp
  have "4 * p1 + 3 < 2 ^ 32" using Suc.prems p1 by simp
  note idx = word_index [OF this]
  have "4 * (p0 + k) \<le> 2 ^ 32" using Suc.prems by simp
  from Suc.IH [OF this]
  have IH: "fold (\<lambda>n (con, p).
             (con(unat (4 * p) := a n, unat (4 * p + 1) := b n,
                  unat (4 * p + 2) := c n, unat (4 * p + 3) := d n), p + 1))
           [0..<k] (con0, (of_nat p0 :: c_int)) = (con1, of_nat p1)"
    unfolding old prod.case .
  show ?case
    unfolding fold_upt_Suc IH old by (simp add: idx)
qed

lemma connectivity_grid_word:
  fixes a b c d :: "nat \<Rightarrow> nat \<Rightarrow> 'v" and k :: nat
  assumes "4 * (J * k) \<le> 2 ^ 32"
  shows "fold (\<lambda>m. fold (\<lambda>n (con, p).
             (con(unat (4 * p) := a n m, unat (4 * p + 1) := b n m,
                  unat (4 * p + 2) := c n m, unat (4 * p + 3) := d n m), p + 1)) [0..<k])
           [0..<J] (con0, (0 :: c_int))
       = (case fold (\<lambda>m. fold (\<lambda>n (con, p).
             (con(4 * p := a n m, 4 * p + 1 := b n m, 4 * p + 2 := c n m, 4 * p + 3 := d n m),
              Suc p)) [0..<k])
           [0..<J] (con0, 0) of (con, p) \<Rightarrow> (con, of_nat p))"
  using assms
proof (induction J)
  case 0
  show ?case by simp
next
  case (Suc J)
  let ?N = "fold (\<lambda>m. fold (\<lambda>n (con, p).
             (con(4 * p := a n m, 4 * p + 1 := b n m, 4 * p + 2 := c n m, 4 * p + 3 := d n m),
              Suc p)) [0..<k])
           [0..<J] (con0, 0)"
  obtain con1 p1 where old: "?N = (con1, p1)" by (cases ?N)
  have "snd ?N = J * k"
    using connectivity_grid [of a b c d k J con0] by blast
  then have p1: "p1 = J * k" unfolding old by simp
  have bound: "4 * (p1 + k) \<le> 2 ^ 32" using Suc.prems p1 by (simp add: algebra_simps)
  have "4 * (J * k) \<le> 4 * (Suc J * k)" by simp
  then have "4 * (J * k) \<le> 2 ^ 32" using Suc.prems by linarith
  from Suc.IH [OF this]
  have IH: "fold (\<lambda>m. fold (\<lambda>n (con, p).
             (con(unat (4 * p) := a n m, unat (4 * p + 1) := b n m,
                  unat (4 * p + 2) := c n m, unat (4 * p + 3) := d n m), p + 1)) [0..<k])
           [0..<J] (con0, (0 :: c_int)) = (con1, of_nat p1)"
    unfolding old prod.case .
  show ?case
    unfolding fold_upt_Suc IH old
    by (rule connectivity_row_word [OF bound, of "\<lambda>n. a n J" "\<lambda>n. b n J" "\<lambda>n. c n J" "\<lambda>n. d n J"])
qed

lemma sint_add_of_nat:
  fixes node :: c_int
  assumes "0 \<le> sint node" and "sint node + int x < 2 ^ 31"
  shows "sint (node + of_nat x) = sint node + int x"
proof -
  have e: "node + of_nat x = of_int (sint node + int x)" by simp
  have t: "signed_take_bit 31 (sint node + int x) = sint node + int x"
    by (rule signed_take_bit_int_eq_self) (use assms in simp_all)
  have "sint (of_int k :: c_int) = signed_take_bit 31 k" for k
    by (simp add: signed_of_int)
  from this [of "sint node + int x"] show ?thesis unfolding e t .
qed

text \<open>
  C5. For every order from 1 on whose \<open>4 * (order - 1)\<^sup>2\<close> entries can be indexed by an
  \<^verbatim>\<open>int\<close> and every base node, \<^verbatim>\<open>getOutputConnectivity\<close> writes \<open>(order - 1)\<^sup>2\<close>
  quadrilaterals, the count \<^verbatim>\<open>addOutputCount\<close> adds to \<^verbatim>\<open>nelems\<close>: the sub-quadrilateral
  \<open>(m, n)\<close> is number \<open>n + m * (order - 1)\<close> and names the grid nodes
  \<^verbatim>\<open>node + n + m*order\<close>, \<^verbatim>\<open>node + n+1 + m*order\<close>, \<^verbatim>\<open>node + n+1 + (m+1)*order\<close> and
  \<^verbatim>\<open>node + n + (m+1)*order\<close>, computed as the code computes them, in \<^verbatim>\<open>int\<close>; when the
  \<open>order\<^sup>2\<close> node numbers from a non-negative \<open>node\<close> on are all \<^verbatim>\<open>int\<close>s, these are the
  integers of the same expressions. Nothing is written behind the last quadrilateral. For
  order 3 these are the four quadrilaterals of the 3 by 3 grid.
\<close>

theorem output_connectivity:
  assumes "1 \<le> pq_order el"
    and "4 * ((pq_order el - 1) * (pq_order el - 1)) < 2 ^ 31"
  shows "sint (snd (getOutputConnectivity_loop el con node))
           = (int (pq_order el) - 1) * (int (pq_order el) - 1)
       \<and> (\<forall>m<pq_order el - 1. \<forall>n<pq_order el - 1.
              getOutputConnectivity el con node (4 * (n + m * (pq_order el - 1)))
                = node + of_nat n + of_nat m * of_nat (pq_order el)
            \<and> getOutputConnectivity el con node (4 * (n + m * (pq_order el - 1)) + 1)
                = node + of_nat n + 1 + of_nat m * of_nat (pq_order el)
            \<and> getOutputConnectivity el con node (4 * (n + m * (pq_order el - 1)) + 2)
                = node + of_nat n + 1 + (of_nat m + 1) * of_nat (pq_order el)
            \<and> getOutputConnectivity el con node (4 * (n + m * (pq_order el - 1)) + 3)
                = node + of_nat n + (of_nat m + 1) * of_nat (pq_order el))
       \<and> (0 \<le> sint node \<and> sint node + int (pq_order el * pq_order el) \<le> 2 ^ 31 \<longrightarrow>
            (\<forall>m<pq_order el - 1. \<forall>n<pq_order el - 1.
              sint (getOutputConnectivity el con node (4 * (n + m * (pq_order el - 1))))
                = sint node + int n + int m * int (pq_order el)
            \<and> sint (getOutputConnectivity el con node (4 * (n + m * (pq_order el - 1)) + 1))
                = sint node + int n + 1 + int m * int (pq_order el)
            \<and> sint (getOutputConnectivity el con node (4 * (n + m * (pq_order el - 1)) + 2))
                = sint node + int n + 1 + (int m + 1) * int (pq_order el)
            \<and> sint (getOutputConnectivity el con node (4 * (n + m * (pq_order el - 1)) + 3))
                = sint node + int n + (int m + 1) * int (pq_order el)))
       \<and> (\<forall>q. 4 * ((pq_order el - 1) * (pq_order el - 1)) \<le> q
              \<longrightarrow> getOutputConnectivity el con node q = con q)
       \<and> addOutputCount el (nelems, nnodes, ncsr)
           = (nelems + snd (getOutputConnectivity_loop el con node),
              nnodes + of_nat (pq_order el * pq_order el),
              ncsr + 4 * snd (getOutputConnectivity_loop el con node))
       \<and> map (getOutputConnectivity (PoissonQuad 3 f') con node) [0..<16]
           = [node, node + 1, node + 4, node + 3,
              node + 1, node + 2, node + 5, node + 4,
              node + 3, node + 4, node + 7, node + 6,
              node + 4, node + 5, node + 8, node + 7]"
proof -
  let ?o = "pq_order el"
  let ?k = "pq_order el - 1"
  let ?a = "\<lambda>n m. node + of_nat n + of_nat m * (of_nat ?o :: c_int)"
  let ?b = "\<lambda>n m. node + of_nat n + 1 + of_nat m * (of_nat ?o :: c_int)"
  let ?c = "\<lambda>n m. node + of_nat n + 1 + (of_nat m + 1) * (of_nat ?o :: c_int)"
  let ?d = "\<lambda>n m. node + of_nat n + (of_nat m + 1) * (of_nat ?o :: c_int)"
  let ?N = "fold (\<lambda>m. fold (\<lambda>n (con, p).
             (con(4 * p := ?a n m, 4 * p + 1 := ?b n m, 4 * p + 2 := ?c n m, 4 * p + 3 := ?d n m),
              Suc p)) [0..<?k])
           [0..<?k] (con, 0)"
  have k: "nat (int ?o - 1) = ?k" by simp
  have bound: "4 * (?k * ?k) \<le> 2 ^ 32" using assms(2) by simp
  have loop: "getOutputConnectivity_loop el con node = (fst ?N, of_nat (snd ?N))"
    unfolding getOutputConnectivity_loop_def k
      connectivity_grid_word [OF bound, of ?a ?b ?c ?d con]
    by (simp add: case_prod_beta)
  have grid: "snd ?N = ?k * ?k
       \<and> (\<forall>m<?k. \<forall>n<?k.
              fst ?N (4 * (n + m * ?k)) = ?a n m
            \<and> fst ?N (4 * (n + m * ?k) + 1) = ?b n m
            \<and> fst ?N (4 * (n + m * ?k) + 2) = ?c n m
            \<and> fst ?N (4 * (n + m * ?k) + 3) = ?d n m)
       \<and> (\<forall>q. 4 * (?k * ?k) \<le> q \<longrightarrow> fst ?N q = con q)"
    by (rule connectivity_grid)
  have count: "snd (getOutputConnectivity_loop el con node) = of_nat (?k * ?k)"
    using grid unfolding loop by simp
  have "int x < 2 ^ 31" if "4 * x < (2::nat) ^ 31" for x
    using that by simp
  from this [OF assms(2)] have kk: "int (?k * ?k) < 2 ^ 31" .
  have "sint (0 + of_nat (?k * ?k) :: c_int) = sint (0 :: c_int) + int (?k * ?k)"
    by (rule sint_add_of_nat) (use kk in \<open>simp_all del: of_nat_mult\<close>)
  then have c1: "sint (snd (getOutputConnectivity_loop el con node))
           = (int ?o - 1) * (int ?o - 1)"
    unfolding count using assms(1) by (simp add: of_nat_diff)
  have c2: "\<forall>m<?k. \<forall>n<?k.
              getOutputConnectivity el con node (4 * (n + m * ?k)) = ?a n m
            \<and> getOutputConnectivity el con node (4 * (n + m * ?k) + 1) = ?b n m
            \<and> getOutputConnectivity el con node (4 * (n + m * ?k) + 2) = ?c n m
            \<and> getOutputConnectivity el con node (4 * (n + m * ?k) + 3) = ?d n m"
    using grid unfolding getOutputConnectivity_def loop fst_conv by blast
  have c3: "\<forall>m<?k. \<forall>n<?k.
              sint (getOutputConnectivity el con node (4 * (n + m * ?k)))
                = sint node + int n + int m * int ?o
            \<and> sint (getOutputConnectivity el con node (4 * (n + m * ?k) + 1))
                = sint node + int n + 1 + int m * int ?o
            \<and> sint (getOutputConnectivity el con node (4 * (n + m * ?k) + 2))
                = sint node + int n + 1 + (int m + 1) * int ?o
            \<and> sint (getOutputConnectivity el con node (4 * (n + m * ?k) + 3))
                = sint node + int n + (int m + 1) * int ?o"
    if nn: "0 \<le> sint node" and top: "sint node + int (?o * ?o) \<le> 2 ^ 31"
  proof (intro allI impI)
    fix m n assume m: "m < ?k" and n: "n < ?k"
    have "Suc n + Suc m * ?o \<le> ?k + ?k * ?o"
      using m n by (intro add_mono mult_le_mono1) simp_all
    also have "\<dots> < ?o * ?o" using assms(1) by (simp add: algebra_simps diff_mult_distrib)
    finally have inside: "Suc n + Suc m * ?o < ?o * ?o" .
    have r: "sint (node + of_nat x) = sint node + int x" if "x \<le> Suc n + Suc m * ?o" for x
      by (rule sint_add_of_nat [OF nn]) (use that inside top in linarith)
    have ea: "?a n m = node + of_nat (n + m * ?o)"
      and eb: "?b n m = node + of_nat (n + 1 + m * ?o)"
      and ec: "?c n m = node + of_nat (n + 1 + (m + 1) * ?o)"
      and ed: "?d n m = node + of_nat (n + (m + 1) * ?o)"
      by (simp_all add: algebra_simps)
    have va: "sint (?a n m) = sint node + int n + int m * int ?o"
      unfolding ea by (subst r) simp_all
    have vb: "sint (?b n m) = sint node + int n + 1 + int m * int ?o"
      unfolding eb by (subst r) simp_all
    have vc: "sint (?c n m) = sint node + int n + 1 + (int m + 1) * int ?o"
      unfolding ec by (subst r) (simp_all add: algebra_simps)
    have vd: "sint (?d n m) = sint node + int n + (int m + 1) * int ?o"
      unfolding ed by (subst r) (simp_all add: algebra_simps)
    from c2 m n have "getOutputConnectivity el con node (4 * (n + m * ?k)) = ?a n m"
      and "getOutputConnectivity el con node (4 * (n + m * ?k) + 1) = ?b n m"
      and "getOutputConnectivity el con node (4 * (n + m * ?k) + 2) = ?c n m"
      and "getOutputConnectivity el con node (4 * (n + m * ?k) + 3) = ?d n m"
      by blast+
    then show "sint (getOutputConnectivity el con node (4 * (n + m * ?k)))
                = sint node + int n + int m * int ?o
            \<and> sint (getOutputConnectivity el con node (4 * (n + m * ?k) + 1))
                = sint node + int n + 1 + int m * int ?o
            \<and> sint (getOutputConnectivity el con node (4 * (n + m * ?k) + 2))
                = sint node + int n + 1 + (int m + 1) * int ?o
            \<and> sint (getOutputConnectivity el con node (4 * (n + m * ?k) + 3))
                = sint node + int n + (int m + 1) * int ?o"
      using va vb vc vd by (simp only:)
  qed
  have c4: "\<forall>q. 4 * (?k * ?k) \<le> q \<longrightarrow> getOutputConnectivity el con node q = con q"
    using grid unfolding getOutputConnectivity_def loop fst_conv by blast
  have "(of_nat ?o - 1 :: c_int) = of_nat ?k" using assms(1) by simp
  then have c5: "addOutputCount el (nelems, nnodes, ncsr)
           = (nelems + snd (getOutputConnectivity_loop el con node),
              nnodes + of_nat (?o * ?o),
              ncsr + 4 * snd (getOutputConnectivity_loop el con node))"
    unfolding count by (simp add: addOutputCount_def)
  have c6: "map (getOutputConnectivity (PoissonQuad 3 f') con node) [0..<16]
           = [node, node + 1, node + 4, node + 3,
              node + 1, node + 2, node + 5, node + 4,
              node + 3, node + 4, node + 7, node + 6,
              node + 4, node + 5, node + 8, node + 7]"
    by (simp add: getOutputConnectivity_def getOutputConnectivity_loop_def upt_2 upt_16)
  show ?thesis
    using c1 c2 c3 c4 c5 c6 by blast
qed

text \<open>
  The order-3 element with base node 10 and a connectivity buffer of zeros; and the
  order-2 element at the largest \<^verbatim>\<open>int\<close>, where the node numbers wrap around.
\<close>

theorem output_connectivity_witness:
  "(1::nat) \<le> pq_order (PoissonQuad 3 (\<lambda>_. 0))
   \<and> 4 * ((pq_order (PoissonQuad 3 (\<lambda>_. 0)) - 1) * (pq_order (PoissonQuad 3 (\<lambda>_. 0)) - 1))
        < (2::nat) ^ 31
   \<and> sint (snd (getOutputConnectivity_loop (PoissonQuad 3 (\<lambda>_. 0)) (\<lambda>_. 0) 10)) = 4
   \<and> 0 \<le> sint (10 :: c_int)
   \<and> sint (10 :: c_int) + int (pq_order (PoissonQuad 3 (\<lambda>_. 0)) * pq_order (PoissonQuad 3 (\<lambda>_. 0)))
        \<le> 2 ^ 31
   \<and> sint (getOutputConnectivity (PoissonQuad 3 (\<lambda>_. 0)) (\<lambda>_. 0) 10 14) = 18
   \<and> getOutputConnectivity (PoissonQuad 3 (\<lambda>_. 0)) (\<lambda>_. 0) 10 16 = 0
   \<and> addOutputCount (PoissonQuad 3 (\<lambda>_. 0)) (0, 0, 0) = (4, 9, 16)
   \<and> map (getOutputConnectivity (PoissonQuad 3 (\<lambda>_. 0)) (\<lambda>_. 0) 10) [0..<16]
        = [10, 11, 14, 13, 11, 12, 15, 14, 13, 14, 17, 16, 14, 15, 18, 17]
   \<and> map (\<lambda>q. sint (getOutputConnectivity (PoissonQuad 2 (\<lambda>_. 0)) (\<lambda>_. 0) 2147483647 q)) [0..<4]
        = [2147483647, - 2147483648, - 2147483646, - 2147483647]"
proof -
  let ?el = "PoissonQuad 3 (\<lambda>_. 0)"
  let ?el2 = "PoissonQuad 2 (\<lambda>_. 0)"
  have h: "1 \<le> pq_order ?el" by simp
  have b: "4 * ((pq_order ?el - 1) * (pq_order ?el - 1)) < (2::nat) ^ 31" by simp
  have r0: "0 \<le> sint (10 :: c_int)" by simp
  have r1: "sint (10 :: c_int) + int (pq_order ?el * pq_order ?el) \<le> 2 ^ 31" by simp
  note T = output_connectivity [OF h b, of "\<lambda>_. 0" 10 0 0 0 "\<lambda>_. 0"]
  have count: "sint (snd (getOutputConnectivity_loop ?el (\<lambda>_. 0) 10)) = 4"
    using T [THEN conjunct1] by simp
  have "snd (getOutputConnectivity_loop ?el (\<lambda>_. 0) 10)
          = of_int (sint (snd (getOutputConnectivity_loop ?el (\<lambda>_. 0) 10)))"
    by simp
  also have "\<dots> = of_int 4" by (simp only: count)
  finally have p: "snd (getOutputConnectivity_loop ?el (\<lambda>_. 0) 10) = 4" by simp
  have quads: "\<forall>m<pq_order ?el - 1. \<forall>n<pq_order ?el - 1.
      sint (getOutputConnectivity ?el (\<lambda>_. 0) 10 (4 * (n + m * (pq_order ?el - 1)) + 2))
        = sint (10 :: c_int) + int n + 1 + (int m + 1) * int (pq_order ?el)"
    using T r0 r1 by blast
  have frame: "\<forall>q. 4 * ((pq_order ?el - 1) * (pq_order ?el - 1)) \<le> q
      \<longrightarrow> getOutputConnectivity ?el (\<lambda>_. 0) 10 q = 0"
    using T by blast
  have cnt: "addOutputCount ?el (0, 0, 0)
      = (0 + snd (getOutputConnectivity_loop ?el (\<lambda>_. 0) 10),
         0 + of_nat (pq_order ?el * pq_order ?el),
         0 + 4 * snd (getOutputConnectivity_loop ?el (\<lambda>_. 0) 10))"
    using T by blast
  have lst: "map (getOutputConnectivity ?el (\<lambda>_. 0) 10) [0..<16]
        = [10, 10 + 1, 10 + 4, 10 + 3, 10 + 1, 10 + 2, 10 + 5, 10 + 4,
           10 + 3, 10 + 4, 10 + 7, 10 + 6, 10 + 4, 10 + 5, 10 + 8, 10 + 7]"
    using T by blast
  have q14: "sint (getOutputConnectivity ?el (\<lambda>_. 0) 10 14) = 18"
    using quads [rule_format, of 1 1] by simp
  have q16: "getOutputConnectivity ?el (\<lambda>_. 0) 10 16 = 0"
    using frame [rule_format, of 16] by simp
  have h2: "1 \<le> pq_order ?el2" by simp
  have b2: "4 * ((pq_order ?el2 - 1) * (pq_order ?el2 - 1)) < (2::nat) ^ 31" by simp
  have "\<forall>m<pq_order ?el2 - 1. \<forall>n<pq_order ?el2 - 1.
          getOutputConnectivity ?el2 (\<lambda>_. 0) 2147483647 (4 * (n + m * (pq_order ?el2 - 1)))
            = 2147483647 + of_nat n + of_nat m * of_nat (pq_order ?el2)
        \<and> getOutputConnectivity ?el2 (\<lambda>_. 0) 2147483647 (4 * (n + m * (pq_order ?el2 - 1)) + 1)
            = 2147483647 + of_nat n + 1 + of_nat m * of_nat (pq_order ?el2)
        \<and> getOutputConnectivity ?el2 (\<lambda>_. 0) 2147483647 (4 * (n + m * (pq_order ?el2 - 1)) + 2)
            = 2147483647 + of_nat n + 1 + (of_nat m + 1) * of_nat (pq_order ?el2)
        \<and> getOutputConnectivity ?el2 (\<lambda>_. 0) 2147483647 (4 * (n + m * (pq_order ?el2 - 1)) + 3)
            = 2147483647 + of_nat n + (of_nat m + 1) * of_nat (pq_order ?el2)"
    using output_connectivity [OF h2 b2, of "\<lambda>_. 0" 2147483647 0 0 0 "\<lambda>_. 0"] by blast
  from this [rule_format, of 0 0]
  have wrap: "map (\<lambda>q. sint (getOutputConnectivity ?el2 (\<lambda>_. 0) 2147483647 q)) [0..<4]
        = [2147483647, - 2147483648, - 2147483646, - 2147483647]"
    by (simp add: upt_4 numeral_2_eq_2)
  show ?thesis
    using h b r0 r1 count q14 q16 cnt lst wrap unfolding p by simp
qed
section \<open>The localized error goes to the corners\<close>

lemma Nerr_sum: "(case Nerr pt of (w0, w1, w2, w3) \<Rightarrow> w0 + w1 + w2 + w3) = 1"
  by (simp add: Nerr_def field_simps)

lemma four_updates:
  fixes e :: array
  shows "(let e1 = e(a := e a + x0);
              e2 = e1(b := e1 b + x1);
              e3 = e2(c := e2 c + x2)
          in e3(d := e3 d + x3))
       = (\<lambda>i. e i + ((if i = a then x0 else 0) + (if i = b then x1 else 0)
                      + (if i = c then x2 else 0) + (if i = d then x3 else 0)))"
  by (auto simp: Let_def fun_eq_iff)

lemma addLocalizedError_point_closed:
  "addLocalizedError_point lib el adjoint Xpts vars m n err =
     (\<lambda>i. err i
        + ((if i = 0
            then fst (Nerr (fst (lib_getGaussPtsWts lib (pq_order el)) n,
                            fst (lib_getGaussPtsWts lib (pq_order el)) m))
                 * addLocalizedError_product lib el adjoint Xpts vars m n else 0)
         + (if i = pq_order el - 1
            then fst (snd (Nerr (fst (lib_getGaussPtsWts lib (pq_order el)) n,
                                 fst (lib_getGaussPtsWts lib (pq_order el)) m)))
                 * addLocalizedError_product lib el adjoint Xpts vars m n else 0)
         + (if i = pq_order el * (pq_order el - 1)
            then fst (snd (snd (Nerr (fst (lib_getGaussPtsWts lib (pq_order el)) n,
                                      fst (lib_getGaussPtsWts lib (pq_order el)) m))))
                 * addLocalizedError_product lib el adjoint Xpts vars m n else 0)
         + (if i = pq_order el * pq_order el - 1
            then snd (snd (snd (Nerr (fst (lib_getGaussPtsWts lib (pq_order el)) n,
                                      fst (lib_getGaussPtsWts lib (pq_order el)) m))))
                 * addLocalizedError_product lib el adjoint Xpts vars m n else 0)))"
  unfolding addLocalizedError_point_def Let_def case_prod_beta four_updates [unfolded Let_def] ..

lemma sum_list_set_swap:
  fixes f :: "'a \<Rightarrow> nat \<Rightarrow> real"
  shows "(\<Sum>c\<in>S. \<Sum>x\<leftarrow>xs. f x c) = (\<Sum>x\<leftarrow>xs. \<Sum>c\<in>S. f x c)"
  by (induction xs) (simp_all add: sum.distrib)

lemma corner_sum:
  fixes x0 x1 x2 x3 :: real
  shows "(\<Sum>i\<in>{0, c1, c2, c3 :: nat}.
            (if i = 0 then x0 else 0) + (if i = c1 then x1 else 0)
             + (if i = c2 then x2 else 0) + (if i = c3 then x3 else 0))
         = x0 + x1 + x2 + x3"
proof -
  have fin: "finite {0, c1, c2, c3}" by simp
  have d: "(\<Sum>i\<in>{0, c1, c2, c3}. if i = a then x else 0) = (if a \<in> {0, c1, c2, c3} then x else 0)"
    for a :: nat and x :: real
    using fin by (rule sum.delta)
  show ?thesis
    unfolding sum.distrib d by simp
qed

lemma addLocalizedError_closed:
  "addLocalizedError lib el time err adjoint Xpts vars =
     (\<lambda>i. err i + (\<Sum>m\<leftarrow>[0..<pq_order el]. \<Sum>n\<leftarrow>[0..<pq_order el].
                       addLocalizedError_point lib el adjoint Xpts vars m n (\<lambda>_. 0) i))"
proof -
  have pt: "addLocalizedError_point lib el adjoint Xpts vars m n r
            = (\<lambda>i. r i + addLocalizedError_point lib el adjoint Xpts vars m n (\<lambda>_. 0) i)"
    for m n and r :: array
    by (simp add: addLocalizedError_point_closed)
  have inner: "fold (\<lambda>n. addLocalizedError_point lib el adjoint Xpts vars m n) ns r
       = (\<lambda>i. r i + (\<Sum>n\<leftarrow>ns. addLocalizedError_point lib el adjoint Xpts vars m n (\<lambda>_. 0) i))"
    for m ns and r :: array
    by (rule fold_shift_sum) (rule pt)
  show ?thesis
    unfolding addLocalizedError_def
    by (rule fold_shift_sum) (rule inner)
qed

lemma corners_distinct:
  fixes n :: nat
  assumes "2 \<le> n"
  shows "n - 1 \<noteq> 0" "n * (n - 1) \<noteq> 0" "n * n - 1 \<noteq> 0"
    "n * (n - 1) \<noteq> n - 1" "n * n - 1 \<noteq> n - 1" "n * n - 1 \<noteq> n * (n - 1)"
proof -
  obtain k where n: "n = Suc (Suc k)"
    using assms by (metis Suc_le_D numeral_2_eq_2 Suc_le_mono le0 not0_implies_Suc not_less_eq_eq)
  show "n - 1 \<noteq> 0" "n * (n - 1) \<noteq> 0" "n * n - 1 \<noteq> 0"
    "n * (n - 1) \<noteq> n - 1" "n * n - 1 \<noteq> n - 1" "n * n - 1 \<noteq> n * (n - 1)"
    unfolding n by simp_all
qed

lemma addLocalizedError_corner_sums:
  "(i \<notin> {0, pq_order el - 1, pq_order el * (pq_order el - 1), pq_order el * pq_order el - 1}
      \<longrightarrow> addLocalizedError lib el time err adjoint Xpts vars i = err i)
   \<and> (case Nerr pt of (w0, w1, w2, w3) \<Rightarrow> w0 + w1 + w2 + w3) = 1
   \<and> (\<Sum>c\<in>{0, pq_order el - 1, pq_order el * (pq_order el - 1), pq_order el * pq_order el - 1}.
         addLocalizedError lib el time err adjoint Xpts vars c - err c)
       = (\<Sum>m\<leftarrow>[0..<pq_order el]. \<Sum>n\<leftarrow>[0..<pq_order el].
            addLocalizedError_product lib el adjoint Xpts vars m n)
   \<and> (2 \<le> pq_order el \<longrightarrow>
         addLocalizedError lib el time err adjoint Xpts vars 0 - err 0
           = (\<Sum>m\<leftarrow>[0..<pq_order el]. \<Sum>n\<leftarrow>[0..<pq_order el].
                fst (Nerr (fst (lib_getGaussPtsWts lib (pq_order el)) n,
                           fst (lib_getGaussPtsWts lib (pq_order el)) m))
                * addLocalizedError_product lib el adjoint Xpts vars m n)
       \<and> addLocalizedError lib el time err adjoint Xpts vars (pq_order el - 1)
             - err (pq_order el - 1)
           = (\<Sum>m\<leftarrow>[0..<pq_order el]. \<Sum>n\<leftarrow>[0..<pq_order el].
                fst (snd (Nerr (fst (lib_getGaussPtsWts lib (pq_order el)) n,
                                fst (lib_getGaussPtsWts lib (pq_order el)) m)))
                * addLocalizedError_product lib el adjoint Xpts vars m n)
       \<and> addLocalizedError lib el time err adjoint Xpts vars (pq_order el * (pq_order el - 1))
             - err (pq_order el * (pq_order el - 1))
           = (\<Sum>m\<leftarrow>[0..<pq_order el]. \<Sum>n\<leftarrow>[0..<pq_order el].
                fst (snd (snd (Nerr (fst (lib_getGaussPtsWts lib (pq_order el)) n,
                                     fst (lib_getGaussPtsWts lib (pq_order el)) m))))
                * addLocalizedError_product lib el adjoint Xpts vars m n)
       \<and> addLocalizedError lib el time err adjoint Xpts vars (pq_order el * pq_order el - 1)
             - err (pq_order el * pq_order el - 1)
           = (\<Sum>m\<leftarrow>[0..<pq_order el]. \<Sum>n\<leftarrow>[0..<pq_order el].
                snd (snd (snd (Nerr (fst (lib_getGaussPtsWts lib (pq_order el)) n,
                                     fst (lib_getGaussPtsWts lib (pq_order el)) m))))
                * addLocalizedError_product lib el adjoint Xpts vars m n))"
proof (intro conjI impI)
  assume "i \<notin> {0, pq_order el - 1, pq_order el * (pq_order el - 1), pq_order el * pq_order el - 1}"
  then show "addLocalizedError lib el time err adjoint Xpts vars i = err i"
    unfolding addLocalizedError_closed addLocalizedError_point_closed by simp
next
  show "(case Nerr pt of (w0, w1, w2, w3) \<Rightarrow> w0 + w1 + w2 + w3) = 1"
    by (rule Nerr_sum)
next
  let ?S = "{0, pq_order el - 1, pq_order el * (pq_order el - 1), pq_order el * pq_order el - 1}"
  have w: "fst (Nerr p) + fst (snd (Nerr p)) + fst (snd (snd (Nerr p))) + snd (snd (snd (Nerr p))) = 1"
    for p
    using Nerr_sum [of p] by (simp add: case_prod_beta)
  have one: "(\<Sum>c\<in>?S. addLocalizedError_point lib el adjoint Xpts vars m n (\<lambda>_. 0) c)
             = addLocalizedError_product lib el adjoint Xpts vars m n" for m n
    unfolding addLocalizedError_point_closed
    by (simp only: add_0 corner_sum distrib_right [symmetric] w mult_1)
  have "(\<Sum>c\<in>?S. addLocalizedError lib el time err adjoint Xpts vars c - err c)
        = (\<Sum>c\<in>?S. \<Sum>m\<leftarrow>[0..<pq_order el]. \<Sum>n\<leftarrow>[0..<pq_order el].
                       addLocalizedError_point lib el adjoint Xpts vars m n (\<lambda>_. 0) c)"
    by (subst addLocalizedError_closed) simp
  also have "\<dots> = (\<Sum>m\<leftarrow>[0..<pq_order el]. \<Sum>c\<in>?S. \<Sum>n\<leftarrow>[0..<pq_order el].
                       addLocalizedError_point lib el adjoint Xpts vars m n (\<lambda>_. 0) c)"
    by (rule sum_list_set_swap)
  also have "\<dots> = (\<Sum>m\<leftarrow>[0..<pq_order el]. \<Sum>n\<leftarrow>[0..<pq_order el]. \<Sum>c\<in>?S.
                       addLocalizedError_point lib el adjoint Xpts vars m n (\<lambda>_. 0) c)"
    by (simp only: sum_list_set_swap)
  finally show "(\<Sum>c\<in>?S. addLocalizedError lib el time err adjoint Xpts vars c - err c)
       = (\<Sum>m\<leftarrow>[0..<pq_order el]. \<Sum>n\<leftarrow>[0..<pq_order el].
            addLocalizedError_product lib el adjoint Xpts vars m n)"
    by (simp only: one)
next
  assume o: "2 \<le> pq_order el"
  note d = corners_distinct [OF o] corners_distinct [OF o, symmetric]
  show "addLocalizedError lib el time err adjoint Xpts vars 0 - err 0
           = (\<Sum>m\<leftarrow>[0..<pq_order el]. \<Sum>n\<leftarrow>[0..<pq_order el].
                fst (Nerr (fst (lib_getGaussPtsWts lib (pq_order el)) n,
                           fst (lib_getGaussPtsWts lib (pq_order el)) m))
                * addLocalizedError_product lib el adjoint Xpts vars m n)"
    unfolding addLocalizedError_closed addLocalizedError_point_closed
    by (simp only: d if_True if_False refl add_0 add_0_right add_diff_cancel_left')
  show "addLocalizedError lib el time err adjoint Xpts vars (pq_order el - 1)
             - err (pq_order el - 1)
           = (\<Sum>m\<leftarrow>[0..<pq_order el]. \<Sum>n\<leftarrow>[0..<pq_order el].
                fst (snd (Nerr (fst (lib_getGaussPtsWts lib (pq_order el)) n,
                                fst (lib_getGaussPtsWts lib (pq_order el)) m)))
                * addLocalizedError_product lib el adjoint Xpts vars m n)"
    unfolding addLocalizedError_closed addLocalizedError_point_closed
    by (simp only: d if_True if_False refl add_0 add_0_right add_diff_cancel_left')
  show "addLocalizedError lib el time err adjoint Xpts vars (pq_order el * (pq_order el - 1))
             - err (pq_order el * (pq_order el - 1))
           = (\<Sum>m\<leftarrow>[0..<pq_order el]. \<Sum>n\<leftarrow>[0..<pq_order el].
                fst (snd (snd (Nerr (fst (lib_getGaussPtsWts lib (pq_order el)) n,
                                     fst (lib_getGaussPtsWts lib (pq_order el)) m))))
                * addLocalizedError_product lib el adjoint Xpts vars m n)"
    unfolding addLocalizedError_closed addLocalizedError_point_closed
    by (simp only: d if_True if_False refl add_0 add_0_right add_diff_cancel_left')
  show "addLocalizedError lib el time err adjoint Xpts vars (pq_order el * pq_order el - 1)
             - err (pq_order el * pq_order el - 1)
           = (\<Sum>m\<leftarrow>[0..<pq_order el]. \<Sum>n\<leftarrow>[0..<pq_order el].
                snd (snd (snd (Nerr (fst (lib_getGaussPtsWts lib (pq_order el)) n,
                                     fst (lib_getGaussPtsWts lib (pq_order el)) m))))
                * addLocalizedError_product lib el adjoint Xpts vars m n)"
    unfolding addLocalizedError_closed addLocalizedError_point_closed
    by (simp only: d if_True if_False refl add_0 add_0_right add_diff_cancel_left')
qed

lemma Nerr_components:
  "fst (Nerr (a, b)) = 0.25 * (1 - a) * (1 - b)"
  "fst (snd (Nerr (a, b))) = 0.25 * (1 + a) * (1 - b)"
  "fst (snd (snd (Nerr (a, b)))) = 0.25 * (1 - a) * (1 + b)"
  "snd (snd (snd (Nerr (a, b)))) = 0.25 * (1 + a) * (1 + b)"
  by (simp_all add: Nerr_def)

text \<open>
  C6. \<^verbatim>\<open>addLocalizedError\<close> changes \<^verbatim>\<open>err\<close> at the four corner entries \<open>0\<close>, \<open>order - 1\<close>,
  \<open>order * (order - 1)\<close> and \<open>order * order - 1\<close> only. The four weights of a quadrature
  point \<open>(a, b)\<close> are \<open>0.25 * (1 - a) * (1 - b)\<close>, \<open>0.25 * (1 + a) * (1 - b)\<close>,
  \<open>0.25 * (1 - a) * (1 + b)\<close> and \<open>0.25 * (1 + a) * (1 + b)\<close>, in this order, and sum to 1.
  What the corners receive together is the sum of the scalars \<^verbatim>\<open>product\<close> of the quadrature
  points; and from order 2 on, where the corners are four different entries, the corner
  \<open>0\<close> receives each scalar with the first weight, \<open>order - 1\<close> with the second,
  \<open>order * (order - 1)\<close> with the third and \<open>order * order - 1\<close> with the fourth. The sums
  are those of the real numbers.
\<close>

theorem addLocalizedError_corners:
  "(i \<notin> {0, pq_order el - 1, pq_order el * (pq_order el - 1), pq_order el * pq_order el - 1}
      \<longrightarrow> addLocalizedError lib el time err adjoint Xpts vars i = err i)
   \<and> Nerr (a, b) = (0.25 * (1 - a) * (1 - b), 0.25 * (1 + a) * (1 - b),
                     0.25 * (1 - a) * (1 + b), 0.25 * (1 + a) * (1 + b))
   \<and> (case Nerr (a, b) of (w0, w1, w2, w3) \<Rightarrow> w0 + w1 + w2 + w3) = 1
   \<and> (\<Sum>c\<in>{0, pq_order el - 1, pq_order el * (pq_order el - 1), pq_order el * pq_order el - 1}.
         addLocalizedError lib el time err adjoint Xpts vars c - err c)
       = (\<Sum>m\<leftarrow>[0..<pq_order el]. \<Sum>n\<leftarrow>[0..<pq_order el].
            addLocalizedError_product lib el adjoint Xpts vars m n)
   \<and> (2 \<le> pq_order el \<longrightarrow>
         addLocalizedError lib el time err adjoint Xpts vars 0 - err 0
           = (\<Sum>m\<leftarrow>[0..<pq_order el]. \<Sum>n\<leftarrow>[0..<pq_order el].
                0.25 * (1 - fst (lib_getGaussPtsWts lib (pq_order el)) n)
                     * (1 - fst (lib_getGaussPtsWts lib (pq_order el)) m)
                * addLocalizedError_product lib el adjoint Xpts vars m n)
       \<and> addLocalizedError lib el time err adjoint Xpts vars (pq_order el - 1)
             - err (pq_order el - 1)
           = (\<Sum>m\<leftarrow>[0..<pq_order el]. \<Sum>n\<leftarrow>[0..<pq_order el].
                0.25 * (1 + fst (lib_getGaussPtsWts lib (pq_order el)) n)
                     * (1 - fst (lib_getGaussPtsWts lib (pq_order el)) m)
                * addLocalizedError_product lib el adjoint Xpts vars m n)
       \<and> addLocalizedError lib el time err adjoint Xpts vars (pq_order el * (pq_order el - 1))
             - err (pq_order el * (pq_order el - 1))
           = (\<Sum>m\<leftarrow>[0..<pq_order el]. \<Sum>n\<leftarrow>[0..<pq_order el].
                0.25 * (1 - fst (lib_getGaussPtsWts lib (pq_order el)) n)
                     * (1 + fst (lib_getGaussPtsWts lib (pq_order el)) m)
                * addLocalizedError_product lib el adjoint Xpts vars m n)
       \<and> addLocalizedError lib el time err adjoint Xpts vars (pq_order el * pq_order el - 1)
             - err (pq_order el * pq_order el - 1)
           = (\<Sum>m\<leftarrow>[0..<pq_order el]. \<Sum>n\<leftarrow>[0..<pq_order el].
                0.25 * (1 + fst (lib_getGaussPtsWts lib (pq_order el)) n)
                     * (1 + fst (lib_getGaussPtsWts lib (pq_order el)) m)
                * addLocalizedError_product lib el adjoint Xpts vars m n))"
proof -
  note S = addLocalizedError_corner_sums [of i el lib time err adjoint Xpts vars "(a, b)",
      unfolded Nerr_components]
  have N: "Nerr (a, b) = (0.25 * (1 - a) * (1 - b), 0.25 * (1 + a) * (1 - b),
                          0.25 * (1 - a) * (1 + b), 0.25 * (1 + a) * (1 + b))"
    by (simp add: Nerr_def)
  show ?thesis
    using S N by blast
qed

text \<open>
  The order-3 element on the unit square, nodes on the 3 by 3 grid with spacing \<open>1/2\<close>: the
  centre node 4 keeps its entry.
\<close>

theorem addLocalizedError_corners_witness:
  "(4::nat) \<notin> {0, 3 - 1, 3 * (3 - 1), 3 * 3 - 1}
   \<and> addLocalizedError (FElibrary_model (\<lambda>_. gauss3PtsWts)) (PoissonQuad 3 (\<lambda>_. 1)) 0
        (\<lambda>_. 7) (\<lambda>_. 1)
        (array_of [0, 0, 0, 1 / 2, 0, 0, 1, 0, 0,
                   0, 1 / 2, 0, 1 / 2, 1 / 2, 0, 1, 1 / 2, 0,
                   0, 1, 0, 1 / 2, 1, 0, 1, 1, 0])
        (\<lambda>_. 1) 4 = 7
   \<and> (2::nat) \<le> pq_order (PoissonQuad 3 (\<lambda>_. 1))
   \<and> addLocalizedError (FElibrary_model (\<lambda>_. gauss3PtsWts)) (PoissonQuad 3 (\<lambda>_. 1)) 0
        (\<lambda>_. 7) (\<lambda>_. 1)
        (array_of [0, 0, 0, 1 / 2, 0, 0, 1, 0, 0,
                   0, 1 / 2, 0, 1 / 2, 1 / 2, 0, 1, 1 / 2, 0,
                   0, 1, 0, 1 / 2, 1, 0, 1, 1, 0])
        (\<lambda>_. 1) 0 - 7
     = (\<Sum>m\<leftarrow>[0..<3]. \<Sum>n\<leftarrow>[0..<3].
          0.25 * (1 - fst gauss3PtsWts n) * (1 - fst gauss3PtsWts m)
          * addLocalizedError_product (FElibrary_model (\<lambda>_. gauss3PtsWts))
              (PoissonQuad 3 (\<lambda>_. 1)) (\<lambda>_. 1)
              (array_of [0, 0, 0, 1 / 2, 0, 0, 1, 0, 0,
                         0, 1 / 2, 0, 1 / 2, 1 / 2, 0, 1, 1 / 2, 0,
                         0, 1, 0, 1 / 2, 1, 0, 1, 1, 0])
              (\<lambda>_. 1) m n)
   \<and> (case Nerr (1 / 2, 1 / 3) of (w0, w1, w2, w3) \<Rightarrow> w0 + w1 + w2 + w3) = 1
   \<and> Nerr (1 / 2, 1 / 3) = (1 / 12, 1 / 4, 1 / 6, 1 / 2)"
proof -
  let ?el = "PoissonQuad 3 (\<lambda>_. 1)"
  let ?X = "array_of [0, 0, 0, 1 / 2, 0, 0, 1, 0, 0,
                      0, 1 / 2, 0, 1 / 2, 1 / 2, 0, 1, 1 / 2, 0,
                      0, 1, 0, 1 / 2, 1, 0, 1, 1, 0]"
  have h: "4 \<notin> {0, pq_order ?el - 1, pq_order ?el * (pq_order ?el - 1),
                 pq_order ?el * pq_order ?el - 1}"
    by simp
  note T = addLocalizedError_corners
    [of 4 ?el "FElibrary_model (\<lambda>_. gauss3PtsWts)" 0 "\<lambda>_. 7" "\<lambda>_. 1" ?X "\<lambda>_. 1"
        "1 / 2" "1 / 3"]
  have a: "addLocalizedError (FElibrary_model (\<lambda>_. gauss3PtsWts)) ?el 0
        (\<lambda>_. 7) (\<lambda>_. 1) ?X (\<lambda>_. 1) 4 = 7"
    using T h by blast
  have b: "(case Nerr (1 / 2, 1 / 3) of (w0, w1, w2, w3) \<Rightarrow> w0 + w1 + w2 + w3) = 1"
    using T by blast
  have "Nerr (1 / 2, 1 / 3)
          = (0.25 * (1 - 1 / 2) * (1 - 1 / 3), 0.25 * (1 + 1 / 2) * (1 - 1 / 3),
             0.25 * (1 - 1 / 2) * (1 + 1 / 3), 0.25 * (1 + 1 / 2) * (1 + 1 / 3))"
    using T by blast
  then have c: "Nerr (1 / 2, 1 / 3) = (1 / 12, 1 / 4, 1 / 6, 1 / 2)"
    by simp
  have h2: "2 \<le> pq_order ?el" by simp
  have d: "addLocalizedError (FElibrary_model (\<lambda>_. gauss3PtsWts)) ?el 0
        (\<lambda>_. 7) (\<lambda>_. 1) ?X (\<lambda>_. 1) 0 - 7
     = (\<Sum>m\<leftarrow>[0..<pq_order ?el]. \<Sum>n\<leftarrow>[0..<pq_order ?el].
          0.25 * (1 - fst (lib_getGaussPtsWts (FElibrary_model (\<lambda>_. gauss3PtsWts)) (pq_order ?el)) n)
               * (1 - fst (lib_getGaussPtsWts (FElibrary_model (\<lambda>_. gauss3PtsWts)) (pq_order ?el)) m)
          * addLocalizedError_product (FElibrary_model (\<lambda>_. gauss3PtsWts)) ?el (\<lambda>_. 1) ?X
              (\<lambda>_. 1) m n)"
    using T h2 by blast
  have tab: "lib_getGaussPtsWts (FElibrary_model (\<lambda>_. gauss3PtsWts)) k = gauss3PtsWts" for k
    by (simp add: FElibrary_model_def)
  show ?thesis
    using a b c h2 d unfolding tab PoissonQuad_order by simp
qed

section \<open>The beam constitutive object\<close>

lemma computeStress_closed:
  "computeStress C e s = (\<lambda>i. if i < 6 then (\<Sum>j\<leftarrow>[0..<6]. C (packed_index i j) * e j) else s i)"
  unfolding computeStress_def by (rule fold_write)

lemma packed_index_sym: "packed_index i j = packed_index j i"
  by (simp add: packed_index_def min.commute max.commute)

lemma packed_index_bound:
  assumes "i < 6" and "j < 6"
  shows "packed_index i j < NUM_TANGENT_STIFFNESS_ENTRIES"
proof -
  let ?r = "min i j"
  have c: "max i j - ?r \<le> 5 - ?r" using assms by auto
  consider "?r = 0" | "?r = 1" | "?r = 2" | "?r = 3" | "?r = 4" | "?r = 5"
    using assms by (cases "i \<le> j") (simp_all add: min_def, linarith+)
  then show ?thesis
    using c assms
    by cases (simp_all add: packed_index_def NUM_TANGENT_STIFFNESS_ENTRIES_def Let_def)
qed

text \<open>
  C8. \<^verbatim>\<open>evalStress\<close> writes the six entries \<open>s = C e\<close>, with \<open>C\<close> the symmetric operator whose
  21 stored entries are exactly what \<^verbatim>\<open>evalTangentStiffness\<close> copies out (whatever
  \<^verbatim>\<open>elemIndex\<close>, \<^verbatim>\<open>pt\<close> and \<^verbatim>\<open>X\<close> are), and leaves the rest of \<open>s\<close> alone; so the stress is
  linear in the strain.
\<close>

theorem evalStress_is_stiffness_times_strain:
  "(i < 6 \<longrightarrow>
      evalStress this elemIndex pt X e s i
        = (\<Sum>j\<leftarrow>[0..<6].
             evalTangentStiffness this elemIndex' pt' X' C0 (packed_index i j) * e j))
   \<and> (6 \<le> i \<longrightarrow> evalStress this elemIndex pt X e s i = s i)
   \<and> packed_index i j = packed_index j i
   \<and> (k < NUM_TANGENT_STIFFNESS_ENTRIES \<longrightarrow>
        evalTangentStiffness this elemIndex pt X C0 k = bc_C this k)
   \<and> (i < 6 \<longrightarrow>
        evalStress this elemIndex pt X (\<lambda>j. a * e1 j + b * e2 j) s i
          = a * evalStress this elemIndex pt X e1 s i + b * evalStress this elemIndex pt X e2 s i)"
proof (intro conjI impI)
  assume i: "i < 6"
  have "evalTangentStiffness this elemIndex' pt' X' C0 (packed_index i j) = bc_C this (packed_index i j)"
    if "j < 6" for j
    using packed_index_bound [OF i that] by (simp add: evalTangentStiffness_def memcpy_def)
  then show "evalStress this elemIndex pt X e s i
        = (\<Sum>j\<leftarrow>[0..<6].
             evalTangentStiffness this elemIndex' pt' X' C0 (packed_index i j) * e j)"
    using i by (simp add: evalStress_def computeStress_closed upt_6)
  show "evalStress this elemIndex pt X (\<lambda>j. a * e1 j + b * e2 j) s i
          = a * evalStress this elemIndex pt X e1 s i + b * evalStress this elemIndex pt X e2 s i"
    using i by (simp add: evalStress_def computeStress_closed upt_6 algebra_simps)
next
  assume "6 \<le> i"
  then show "evalStress this elemIndex pt X e s i = s i"
    by (simp add: evalStress_def computeStress_closed)
next
  show "packed_index i j = packed_index j i" by (rule packed_index_sym)
next
  assume "k < NUM_TANGENT_STIFFNESS_ENTRIES"
  then show "evalTangentStiffness this elemIndex pt X C0 k = bc_C this k"
    by (simp add: evalTangentStiffness_def memcpy_def)
qed

text \<open>
  A beam with diagonal stiffness 2, 3, 4, 5, 6, 7 under the strain of all ones: the twisting
  moment is \<open>GJ = 3\<close>.
\<close>

theorem evalStress_is_stiffness_times_strain_witness:
  "(1::nat) < 6 \<and> (7::nat) \<ge> 6 \<and> (6::nat) < NUM_TANGENT_STIFFNESS_ENTRIES
   \<and> evalStress (TACSBeamConstitutive_diagonal 1 1 1 0 2 3 4 5 6 7 (0, 0, Finite 2)) 0 (\<lambda>_. 0) (\<lambda>_. 0)
        (array_of [1, 1, 1, 1, 1, 1]) (\<lambda>_. 0) 1
      = (\<Sum>j\<leftarrow>[0..<6].
          evalTangentStiffness (TACSBeamConstitutive_diagonal 1 1 1 0 2 3 4 5 6 7 (0, 0, Finite 2)) 0
            (\<lambda>_. 0) (\<lambda>_. 0) (\<lambda>_. 0) (packed_index 1 j) * array_of [1, 1, 1, 1, 1, 1] j)
   \<and> evalStress (TACSBeamConstitutive_diagonal 1 1 1 0 2 3 4 5 6 7 (0, 0, Finite 2)) 0 (\<lambda>_. 0) (\<lambda>_. 0)
        (array_of [1, 1, 1, 1, 1, 1]) (\<lambda>_. 0) 1 = 3
   \<and> evalStress (TACSBeamConstitutive_diagonal 1 1 1 0 2 3 4 5 6 7 (0, 0, Finite 2)) 0 (\<lambda>_. 0) (\<lambda>_. 0)
        (array_of [1, 1, 1, 1, 1, 1]) (\<lambda>_. 9) 7 = 9
   \<and> evalTangentStiffness (TACSBeamConstitutive_diagonal 1 1 1 0 2 3 4 5 6 7 (0, 0, Finite 2)) 0
        (\<lambda>_. 0) (\<lambda>_. 0) (\<lambda>_. 0) 6 = 3"
proof -
  let ?obj = "TACSBeamConstitutive_diagonal 1 1 1 0 2 3 4 5 6 7 (0, 0, Finite 2)"
  let ?e = "array_of [1, 1, 1, 1, 1, 1]"
  have h1: "(1::nat) < 6" and h2: "(7::nat) \<ge> 6" and h3: "(6::nat) < NUM_TANGENT_STIFFNESS_ENTRIES"
    by (simp_all add: NUM_TANGENT_STIFFNESS_ENTRIES_def)
  note T1 = evalStress_is_stiffness_times_strain
    [of 1 ?obj 0 "\<lambda>_. 0" "\<lambda>_. 0" ?e "\<lambda>_. 0" 0 "\<lambda>_. 0" "\<lambda>_. 0" "\<lambda>_. 0" 0 0 1 ?e 0 ?e]
  note T2 = evalStress_is_stiffness_times_strain
    [of 7 ?obj 0 "\<lambda>_. 0" "\<lambda>_. 0" ?e "\<lambda>_. 9" 0 "\<lambda>_. 0" "\<lambda>_. 0" "\<lambda>_. 0" 0 6 1 ?e 0 ?e]
  have a: "evalStress ?obj 0 (\<lambda>_. 0) (\<lambda>_. 0) ?e (\<lambda>_. 0) 1
      = (\<Sum>j\<leftarrow>[0..<6]. evalTangentStiffness ?obj 0 (\<lambda>_. 0) (\<lambda>_. 0) (\<lambda>_. 0) (packed_index 1 j) * ?e j)"
    using T1 h1 by blast
  have b: "evalStress ?obj 0 (\<lambda>_. 0) (\<lambda>_. 0) ?e (\<lambda>_. 9) 7 = 9"
    using T2 h2 by blast
  have c: "evalTangentStiffness ?obj 0 (\<lambda>_. 0) (\<lambda>_. 0) (\<lambda>_. 0) 6 = bc_C ?obj 6"
    using T2 h3 by blast
  have d: "bc_C ?obj 6 = 3"
    by (simp add: TACSBeamConstitutive_diagonal_def)
  have v: "evalStress ?obj 0 (\<lambda>_. 0) (\<lambda>_. 0) ?e (\<lambda>_. 0) 1 = 3"
    by (simp add: evalStress_def computeStress_closed upt_6 packed_index_def
        TACSBeamConstitutive_diagonal_def array_of_def)
  show ?thesis using h1 h2 h3 a b c d v by simp
qed

section \<open>The reference axis\<close>

lemma component_square:
  assumes "axis_component a"
  shows "is_finite (a * a)"
    and "(1 - macheps) * (valof a)\<^sup>2 \<le> valof (a * a)"
    and "valof (a * a) \<le> (1 + macheps) * (valof a)\<^sup>2"
    and "valof a \<noteq> 0 \<Longrightarrow> 2 powi (- 1000) \<le> (valof a)\<^sup>2"
    and "(valof a)\<^sup>2 \<le> 2 powi 1000"
proof -
  let ?x = "valof a"
  have fin: "is_finite a" using assms by (simp add: axis_component_def)
  have lo: "2 powi (- 1000) \<le> ?x\<^sup>2" if "?x \<noteq> 0"
  proof -
    have "2 powi (- 500) \<le> \<bar>?x\<bar>" using assms that by (simp add: axis_component_def)
    then have "(2 powi (- 500))\<^sup>2 \<le> \<bar>?x\<bar>\<^sup>2" by (intro power_mono) simp_all
    moreover have "((2::real) powi (- 500))\<^sup>2 = 2 powi (- 1000)"
      by (simp add: power_int_minus power2_eq_square field_simps flip: power_add)
    ultimately show ?thesis by simp
  qed
  have hi: "?x\<^sup>2 \<le> 2 powi 1000"
  proof (cases "?x = 0")
    case True
    then show ?thesis by simp
  next
    case False
    then have "\<bar>?x\<bar> \<le> 2 powi 500" using assms by (simp add: axis_component_def)
    then have "\<bar>?x\<bar>\<^sup>2 \<le> (2 powi 500)\<^sup>2" by (intro power_mono) simp_all
    moreover have "((2::real) powi 500)\<^sup>2 = 2 powi 1000"
      by (simp add: power2_eq_square flip: power_add)
    ultimately show ?thesis by simp
  qed
  have cond: "?x * ?x = 0 \<or> normal_range (?x * ?x)"
  proof (cases "?x = 0")
    case True
    then show ?thesis by simp
  next
    case False
    have "(2::real) powi (- 1022) \<le> 2 powi (- 1000)"
      by (intro power_int_increasing) simp_all
    then have a: "2 powi (- 1022) \<le> ?x * ?x"
      using lo [OF False] by (simp add: power2_eq_square)
    have "(2::real) powi 1000 \<le> 2 powi 1023"
      by (intro power_int_increasing) simp_all
    then have b: "?x * ?x \<le> 2 powi 1023"
      using hi by (simp add: power2_eq_square)
    show ?thesis using normal_rangeI [OF a b] by simp
  qed
  note e = fmul_error [OF fin fin cond]
  show "is_finite (a * a)" using e by simp
  have err: "\<bar>valof (a * a) - ?x\<^sup>2\<bar> \<le> macheps * \<bar>?x\<^sup>2\<bar>"
    using e by (simp add: power2_eq_square)
  show "(1 - macheps) * ?x\<^sup>2 \<le> valof (a * a)" and "valof (a * a) \<le> (1 + macheps) * ?x\<^sup>2"
    using enclose [OF err] by simp_all
  show "?x \<noteq> 0 \<Longrightarrow> 2 powi (- 1000) \<le> ?x\<^sup>2" by (rule lo)
  show "?x\<^sup>2 \<le> 2 powi 1000" by (rule hi)
qed

lemma set_axis_near_unit:
  assumes c0: "axis_component a0" and c1: "axis_component a1" and c2: "axis_component a2"
    and nz: "valof a0 \<noteq> 0 \<or> valof a1 \<noteq> 0 \<or> valof a2 \<noteq> 0"
  shows "is_finite (fst (set_axis (a0, a1, a2)))
       \<and> is_finite (fst (snd (set_axis (a0, a1, a2))))
       \<and> is_finite (snd (snd (set_axis (a0, a1, a2))))
       \<and> \<bar>(valof (fst (set_axis (a0, a1, a2))))\<^sup>2
           + (valof (fst (snd (set_axis (a0, a1, a2)))))\<^sup>2
           + (valof (snd (snd (set_axis (a0, a1, a2)))))\<^sup>2 - 1\<bar> \<le> 2 powi (- 49)"
proof -
  let ?lo = "1 - macheps" and ?hi = "1 + macheps"
  define x0 x1 x2 where "x0 = valof a0" and "x1 = valof a1" and "x2 = valof a2"
  define A01 where "A01 = x0\<^sup>2 + x1\<^sup>2"
  define A where "A = A01 + x2\<^sup>2"
  define s1 where "s1 = a0 * a0 + a1 * a1"
  define s where "s = s1 + a2 * a2"
  define r where "r = fsqrt s"
  define t where "t = 1 / r"
  have lo01: "0 < ?lo" "?lo \<le> 1" "0 < ?hi" "1 \<le> ?hi"
    using macheps_bounds by simp_all
  have fin: "is_finite a0" "is_finite a1" "is_finite a2"
    using c0 c1 c2 by (simp_all add: axis_component_def)
  note q0 = component_square [OF c0, folded x0_def]
  note q1 = component_square [OF c1, folded x1_def]
  note q2 = component_square [OF c2, folded x2_def]
  have n0: "0 \<le> valof (a0 * a0)" and n1: "0 \<le> valof (a1 * a1)" and n2: "0 \<le> valof (a2 * a2)"
  proof -
    have "0 \<le> ?lo * x0\<^sup>2" "0 \<le> ?lo * x1\<^sup>2" "0 \<le> ?lo * x2\<^sup>2" using lo01 by simp_all
    then show "0 \<le> valof (a0 * a0)" "0 \<le> valof (a1 * a1)" "0 \<le> valof (a2 * a2)"
      using q0(2) q1(2) q2(2) by linarith+
  qed
  have A01_nonneg: "0 \<le> A01" and A_nonneg: "0 \<le> A" by (simp_all add: A01_def A_def)
  have A01_hi: "A01 \<le> 2 powi 1001"
  proof -
    have "A01 \<le> 2 * 2 powi 1000" using q0(5) q1(5) by (simp add: A01_def)
    then show ?thesis by (simp add: pow2_double)
  qed
  have A_lo: "2 powi (- 1000) \<le> A"
  proof -
    have "2 powi (- 1000) \<le> x0\<^sup>2 \<or> 2 powi (- 1000) \<le> x1\<^sup>2 \<or> 2 powi (- 1000) \<le> x2\<^sup>2"
      using nz q0(4) q1(4) q2(4) unfolding x0_def x1_def x2_def by blast
    moreover have "0 \<le> x0\<^sup>2" "0 \<le> x1\<^sup>2" "0 \<le> x2\<^sup>2" by simp_all
    ultimately show ?thesis unfolding A_def A01_def by linarith
  qed
  have A_hi: "A \<le> 2 powi 1002"
  proof -
    have "A \<le> 2 powi 1001 + 2 powi 1000" using A01_hi q2(5) by (simp add: A_def)
    also have "\<dots> \<le> 2 powi 1001 + 2 powi 1001" using pow2_mono [of 1000 1001] by simp
    also have "\<dots> = 2 powi 1002" using pow2_double [of 1001] by simp
    finally show ?thesis .
  qed
  have A_pos: "0 < A"
  proof -
    have "0 < (2::real) powi (- 1000)" by simp
    then show ?thesis using A_lo by linarith
  qed
  \<comment> \<open>the first sum\<close>
  have sum01_lo: "?lo * A01 \<le> valof (a0 * a0) + valof (a1 * a1)"
    and sum01_hi: "valof (a0 * a0) + valof (a1 * a1) \<le> ?hi * A01"
    using q0(2,3) q1(2,3) by (simp_all add: A01_def algebra_simps)
  have cond1: "valof (a0 * a0) + valof (a1 * a1) = 0
         \<or> (2 powi (- 1022) \<le> valof (a0 * a0) + valof (a1 * a1)
            \<and> valof (a0 * a0) + valof (a1 * a1) \<le> 2 powi 1023)"
  proof (cases "x0 = 0 \<and> x1 = 0")
    case True
    then have "valof (a0 * a0) \<le> 0" "valof (a1 * a1) \<le> 0" using q0(3) q1(3) by simp_all
    then show ?thesis using n0 n1 by simp
  next
    case False
    then have "2 powi (- 1000) \<le> x0\<^sup>2 \<or> 2 powi (- 1000) \<le> x1\<^sup>2"
      using q0(4) q1(4) unfolding x0_def x1_def by blast
    moreover have "0 \<le> x0\<^sup>2" "0 \<le> x1\<^sup>2" by simp_all
    ultimately have a: "2 powi (- 1000) \<le> A01" unfolding A01_def by linarith
    note b = scale_bounds [OF sum01_lo sum01_hi A01_nonneg]
    have "2 powi (- 1022) \<le> (2::real) powi (- 1000) / 2"
      unfolding pow2_half by (rule pow2_mono) simp
    also have "\<dots> \<le> A01 / 2" using a by simp
    finally have l: "2 powi (- 1022) \<le> valof (a0 * a0) + valof (a1 * a1)" using b(1) by linarith
    have "2 * A01 \<le> 2 * 2 powi 1001" using A01_hi by simp
    also have "\<dots> = 2 powi 1002" by (simp add: pow2_double)
    also have "\<dots> \<le> 2 powi 1023" by (rule pow2_mono) simp
    finally have h: "valof (a0 * a0) + valof (a1 * a1) \<le> 2 powi 1023" using b(2) by linarith
    show ?thesis using l h by simp
  qed
  have sum01_nonneg: "0 \<le> valof (a0 * a0) + valof (a1 * a1)" using n0 n1 by simp
  note e1 = add_nonneg_error [OF q0(1) q1(1) cond1, folded s1_def]
  have s1_fin: "is_finite s1" by (rule e1(1))
  have s1_lo: "?lo\<^sup>2 * A01 \<le> valof s1"
  proof -
    have "?lo * (?lo * A01) \<le> ?lo * (valof (a0 * a0) + valof (a1 * a1))"
      using sum01_lo lo01 by (intro mult_left_mono) simp_all
    then show ?thesis using e1(2) [OF sum01_nonneg] by (simp add: power2_eq_square algebra_simps)
  qed
  have s1_hi: "valof s1 \<le> ?hi\<^sup>2 * A01"
  proof -
    have "?hi * (valof (a0 * a0) + valof (a1 * a1)) \<le> ?hi * (?hi * A01)"
      using sum01_hi lo01 by (intro mult_left_mono) simp_all
    then show ?thesis using e1(3) [OF sum01_nonneg] by (simp add: power2_eq_square algebra_simps)
  qed
  \<comment> \<open>the second sum\<close>
  have lo2: "?lo\<^sup>2 \<le> ?lo" using lo01 by (simp add: power2_eq_square mult_left_le)
  have hi2: "?hi \<le> ?hi\<^sup>2" using lo01 by (simp add: power2_eq_square)
  have sum_lo: "?lo\<^sup>2 * A \<le> valof s1 + valof (a2 * a2)"
  proof -
    have "?lo\<^sup>2 * x2\<^sup>2 \<le> ?lo * x2\<^sup>2" using lo2 by (intro mult_right_mono) simp_all
    then show ?thesis using s1_lo q2(2) by (simp add: A_def algebra_simps)
  qed
  have sum_hi: "valof s1 + valof (a2 * a2) \<le> ?hi\<^sup>2 * A"
  proof -
    have "?hi * x2\<^sup>2 \<le> ?hi\<^sup>2 * x2\<^sup>2" using hi2 by (intro mult_right_mono) simp_all
    then show ?thesis using s1_hi q2(3) by (simp add: A_def algebra_simps)
  qed
  have quarter: "1 / 4 \<le> ?lo\<^sup>2"
  proof -
    have "(1 / 2)\<^sup>2 \<le> ?lo\<^sup>2" using half_le by (intro power_mono) simp_all
    then show ?thesis by (simp add: power2_eq_square)
  qed
  have four: "?hi\<^sup>2 \<le> 4"
  proof -
    have "?hi\<^sup>2 \<le> 2\<^sup>2" using le_two lo01 by (intro power_mono) simp_all
    then show ?thesis by simp
  qed
  have sum_pos: "2 powi (- 1002) \<le> valof s1 + valof (a2 * a2)"
  proof -
    have "(2::real) powi (- 1002) = 1 / 4 * 2 powi (- 1000)"
      using pow2_half [of "- 1000"] pow2_half [of "- 1001"] by simp
    also have "\<dots> \<le> ?lo\<^sup>2 * A" using quarter A_lo by (intro mult_mono) simp_all
    finally show ?thesis using sum_lo by linarith
  qed
  have sum_top: "valof s1 + valof (a2 * a2) \<le> 2 powi 1004"
  proof -
    have "?hi\<^sup>2 * A \<le> 4 * 2 powi 1002" using four A_hi A_nonneg by (intro mult_mono) simp_all
    also have "\<dots> = 2 powi 1004"
      using pow2_double [of 1002] pow2_double [of 1003] by simp
    finally show ?thesis using sum_hi by linarith
  qed
  have cond2: "valof s1 + valof (a2 * a2) = 0
         \<or> (2 powi (- 1022) \<le> valof s1 + valof (a2 * a2)
            \<and> valof s1 + valof (a2 * a2) \<le> 2 powi 1023)"
    using sum_pos sum_top pow2_mono [of "- 1022" "- 1002"] pow2_mono [of 1004 1023] by simp
  have sum_nonneg: "0 \<le> valof s1 + valof (a2 * a2)"
  proof -
    have "0 < (2::real) powi (- 1002)" by simp
    then show ?thesis using sum_pos by linarith
  qed
  note e2 = add_nonneg_error [OF s1_fin q2(1) cond2, folded s_def]
  have s_fin: "is_finite s" by (rule e2(1))
  have s_lo: "?lo ^ 3 * A \<le> valof s"
  proof -
    have "?lo * (?lo\<^sup>2 * A) \<le> ?lo * (valof s1 + valof (a2 * a2))"
      using sum_lo lo01 by (intro mult_left_mono) simp_all
    then show ?thesis
      using e2(2) [OF sum_nonneg] by (simp add: power2_eq_square power3_eq_cube algebra_simps)
  qed
  have s_hi: "valof s \<le> ?hi ^ 3 * A"
  proof -
    have "?hi * (valof s1 + valof (a2 * a2)) \<le> ?hi * (?hi\<^sup>2 * A)"
      using sum_hi lo01 by (intro mult_left_mono) simp_all
    then show ?thesis
      using e2(3) [OF sum_nonneg] by (simp add: power2_eq_square power3_eq_cube algebra_simps)
  qed
  note sb = scale_bounds [OF e2(2) [OF sum_nonneg] e2(3) [OF sum_nonneg] sum_nonneg]
  have s_pos: "2 powi (- 1003) \<le> valof s"
    using sb(1) sum_pos pow2_half [of "- 1002"] by simp
  have s_top: "valof s \<le> 2 powi 1005"
    using sb(2) sum_top pow2_double [of 1004] by simp
  have s_gt: "0 < valof s"
  proof -
    have "0 < (2::real) powi (- 1003)" by simp
    then show ?thesis using s_pos by linarith
  qed
  \<comment> \<open>the square root\<close>
  have root_lo: "2 powi (- 502) \<le> sqrt (valof s)"
  proof (rule real_le_rsqrt)
    have "((2::real) powi (- 502))\<^sup>2 = 2 powi (2 * (- 502))" by (rule pow2_square)
    also have "\<dots> = 2 powi (- 1004)" by simp
    also have "\<dots> \<le> 2 powi (- 1003)" by (rule pow2_mono) simp
    finally show "(2 powi (- 502))\<^sup>2 \<le> valof s" using s_pos by linarith
  qed
  have root_hi: "sqrt (valof s) \<le> 2 powi 503"
  proof (rule real_le_lsqrt)
    show "0 \<le> (2::real) powi 503" by simp
    have "(2::real) powi 1005 \<le> 2 powi 1006" by (rule pow2_mono) simp
    also have "\<dots> = 2 powi (2 * 503)" by simp
    also have "\<dots> = (2 powi 503)\<^sup>2" by (rule pow2_square [symmetric])
    finally show "valof s \<le> (2 powi 503)\<^sup>2" using s_top by linarith
  qed
  have root_pos: "0 < sqrt (valof s)" using s_gt by simp
  have cond3: "valof s = 0 \<or> normal_range (sqrt (valof s))"
  proof -
    have "2 powi (- 1022) \<le> sqrt (valof s)"
      using root_lo pow2_mono [of "- 1022" "- 502"] by simp
    moreover have "sqrt (valof s) \<le> 2 powi 1023"
      using root_hi pow2_mono [of 503 1023] by simp
    ultimately show ?thesis using normal_rangeI by blast
  qed
  have s_nonneg: "0 \<le> valof s" using s_gt by simp
  note e3 = fsqrt_error [OF s_fin s_nonneg cond3, folded r_def]
  have r_fin: "is_finite r" using e3 by simp
  have r_err: "\<bar>valof r - sqrt (valof s)\<bar> \<le> macheps * \<bar>sqrt (valof s)\<bar>" using e3 by simp
  have root_nonneg: "0 \<le> sqrt (valof s)" using root_pos by simp
  note rb = enclose [OF r_err root_nonneg]
  note rc = scale_bounds [OF rb root_nonneg]
  have r_lo: "2 powi (- 503) \<le> valof r"
    using rc(1) root_lo pow2_half [of "- 502"] by simp
  have r_hi: "valof r \<le> 2 powi 504"
    using rc(2) root_hi pow2_double [of 503] by simp
  have r_pos: "0 < valof r"
  proof -
    have "0 < (2::real) powi (- 503)" by simp
    then show ?thesis using r_lo by linarith
  qed
  have r_sq: "?lo\<^sup>2 * valof s \<le> (valof r)\<^sup>2" "(valof r)\<^sup>2 \<le> ?hi\<^sup>2 * valof s"
    using enclose_square [OF r_err] s_nonneg by simp_all
  have r_sq_lo: "?lo ^ 5 * A \<le> (valof r)\<^sup>2"
  proof -
    have "?lo\<^sup>2 * (?lo ^ 3 * A) \<le> ?lo\<^sup>2 * valof s"
      using s_lo by (intro mult_left_mono) simp_all
    moreover have "?lo\<^sup>2 * (?lo ^ 3 * A) = ?lo ^ 5 * A"
      by (simp add: power2_eq_square power3_eq_cube power_numeral_reduce)
    ultimately show ?thesis using r_sq(1) by linarith
  qed
  have r_sq_hi: "(valof r)\<^sup>2 \<le> ?hi ^ 5 * A"
  proof -
    have "?hi\<^sup>2 * valof s \<le> ?hi\<^sup>2 * (?hi ^ 3 * A)"
      using s_hi by (intro mult_left_mono) simp_all
    moreover have "?hi\<^sup>2 * (?hi ^ 3 * A) = ?hi ^ 5 * A"
      by (simp add: power2_eq_square power3_eq_cube power_numeral_reduce)
    ultimately show ?thesis using r_sq(2) by linarith
  qed
  \<comment> \<open>the reciprocal\<close>
  have inv_lo: "2 powi (- 504) \<le> 1 / valof r"
  proof -
    have "1 / 2 powi 504 \<le> 1 / valof r"
      using r_hi r_pos by (intro divide_left_mono) simp_all
    then show ?thesis by (simp add: pow2_inverse)
  qed
  have inv_hi: "1 / valof r \<le> 2 powi 503"
  proof -
    have "1 / valof r \<le> 1 / 2 powi (- 503)"
      using r_lo by (intro divide_left_mono) simp_all
    then show ?thesis using pow2_inverse [of "- 503"] by simp
  qed
  have one: "is_finite (1 :: double)" "valof (1 :: double) = 1"
    by (simp_all add: one_double_def)
  have cond4: "valof (1 :: double) = 0 \<or> normal_range (valof (1 :: double) / valof r)"
  proof -
    have "2 powi (- 1022) \<le> 1 / valof r"
      using inv_lo pow2_mono [of "- 1022" "- 504"] by simp
    moreover have "1 / valof r \<le> 2 powi 1023"
      using inv_hi pow2_mono [of 503 1023] by simp
    ultimately show ?thesis unfolding one using normal_rangeI by blast
  qed
  have r_nz: "valof r \<noteq> 0" using r_pos by simp
  note e4 = fdiv_error [OF one(1) r_fin r_nz cond4, folded t_def, unfolded one]
  have t_fin: "is_finite t" using e4 by simp
  have t_err: "\<bar>valof t - 1 / valof r\<bar> \<le> macheps * \<bar>1 / valof r\<bar>" using e4 by simp
  have inv_nonneg: "0 \<le> 1 / valof r" using r_pos by simp
  note tb = enclose [OF t_err inv_nonneg]
  note tc = scale_bounds [OF tb inv_nonneg]
  have t_lo: "2 powi (- 505) \<le> valof t"
    using tc(1) inv_lo pow2_half [of "- 504"] by simp
  have t_hi: "valof t \<le> 2 powi 504"
    using tc(2) inv_hi pow2_double [of 503] by simp
  have t_pos: "0 < valof t"
  proof -
    have "0 < (2::real) powi (- 505)" by simp
    then show ?thesis using t_lo by linarith
  qed
  have tr_sq: "?lo\<^sup>2 \<le> (valof t)\<^sup>2 * (valof r)\<^sup>2" "(valof t)\<^sup>2 * (valof r)\<^sup>2 \<le> ?hi\<^sup>2"
  proof -
    note q = enclose_square [OF t_err]
    have "?lo\<^sup>2 * (1 / valof r)\<^sup>2 * (valof r)\<^sup>2 \<le> (valof t)\<^sup>2 * (valof r)\<^sup>2"
      using q(1) by (intro mult_right_mono) simp_all
    then show "?lo\<^sup>2 \<le> (valof t)\<^sup>2 * (valof r)\<^sup>2"
      using r_nz by (simp add: power_divide)
    have "(valof t)\<^sup>2 * (valof r)\<^sup>2 \<le> ?hi\<^sup>2 * (1 / valof r)\<^sup>2 * (valof r)\<^sup>2"
      using q(2) by (intro mult_right_mono) simp_all
    then show "(valof t)\<^sup>2 * (valof r)\<^sup>2 \<le> ?hi\<^sup>2"
      using r_nz by (simp add: power_divide)
  qed
  \<comment> \<open>the three products\<close>
  have prod: "is_finite (a * t)
        \<and> ?lo\<^sup>2 * ((valof a)\<^sup>2 * (valof t)\<^sup>2) \<le> (valof (a * t))\<^sup>2
        \<and> (valof (a * t))\<^sup>2 \<le> ?hi\<^sup>2 * ((valof a)\<^sup>2 * (valof t)\<^sup>2)"
    if c: "axis_component a" for a
  proof -
    have fa: "is_finite a" using c by (simp add: axis_component_def)
    have cond: "valof a * valof t = 0 \<or> normal_range (valof a * valof t)"
    proof (cases "valof a = 0")
      case True
      then show ?thesis by simp
    next
      case False
      then have a: "2 powi (- 500) \<le> \<bar>valof a\<bar>" "\<bar>valof a\<bar> \<le> 2 powi 500"
        using c by (simp_all add: axis_component_def)
      have "2 powi (- 500) * 2 powi (- 505) \<le> \<bar>valof a\<bar> * valof t"
        using a(1) t_lo by (intro mult_mono) simp_all
      then have l: "2 powi (- 1022) \<le> \<bar>valof a * valof t\<bar>"
        using pow2_mono [of "- 1022" "- 1005"] t_pos by (simp add: pow2_mult abs_mult)
      have "\<bar>valof a\<bar> * valof t \<le> 2 powi 500 * 2 powi 504"
        using a(2) t_hi t_pos by (intro mult_mono) simp_all
      then have h: "\<bar>valof a * valof t\<bar> \<le> 2 powi 1023"
        using pow2_mono [of 1004 1023] t_pos by (simp add: pow2_mult abs_mult)
      show ?thesis using l h by (simp add: normal_range_def)
    qed
    note e = fmul_error [OF fa t_fin cond]
    have err: "\<bar>valof (a * t) - valof a * valof t\<bar> \<le> macheps * \<bar>valof a * valof t\<bar>"
      using e by simp
    show ?thesis
      using e enclose_square [OF err] by (simp add: power_mult_distrib)
  qed
  define S where "S = (valof (a0 * t))\<^sup>2 + (valof (a1 * t))\<^sup>2 + (valof (a2 * t))\<^sup>2"
  have A_eq: "A = x0\<^sup>2 + x1\<^sup>2 + x2\<^sup>2" by (simp add: A_def A01_def)
  have S_lo: "?lo\<^sup>2 * (A * (valof t)\<^sup>2) \<le> S"
    using prod [OF c0] prod [OF c1] prod [OF c2]
    unfolding S_def A_eq x0_def x1_def x2_def by (simp add: algebra_simps)
  have S_hi: "S \<le> ?hi\<^sup>2 * (A * (valof t)\<^sup>2)"
    using prod [OF c0] prod [OF c1] prod [OF c2]
    unfolding S_def A_eq x0_def x1_def x2_def by (simp add: algebra_simps)
  have rr_pos: "0 < (valof r)\<^sup>2" using r_pos by simp
  have upper: "S * (valof r)\<^sup>2 \<le> (1 + 2 powi (- 49)) * (valof r)\<^sup>2"
  proof -
    have "S * (valof r)\<^sup>2 \<le> ?hi\<^sup>2 * (A * (valof t)\<^sup>2) * (valof r)\<^sup>2"
      using S_hi by (intro mult_right_mono) simp_all
    also have "\<dots> = ?hi\<^sup>2 * A * ((valof t)\<^sup>2 * (valof r)\<^sup>2)" by (simp add: algebra_simps)
    also have "\<dots> \<le> ?hi\<^sup>2 * A * ?hi\<^sup>2"
      using tr_sq(2) A_nonneg by (intro mult_left_mono) simp_all
    also have "\<dots> = ?hi ^ 4 * A" by (simp add: power2_eq_square power_numeral_reduce)
    also have "\<dots> \<le> (1 + 2 powi (- 49)) * ?lo ^ 5 * A"
      using macheps_numeric(1) A_nonneg by (intro mult_right_mono) simp_all
    also have "\<dots> = (1 + 2 powi (- 49)) * (?lo ^ 5 * A)" by simp
    also have "\<dots> \<le> (1 + 2 powi (- 49)) * (valof r)\<^sup>2"
      using r_sq_lo by (intro mult_left_mono) simp_all
    finally show ?thesis .
  qed
  have lower: "(1 - 2 powi (- 49)) * (valof r)\<^sup>2 \<le> S * (valof r)\<^sup>2"
  proof -
    have small: "0 \<le> 1 - (2::real) powi (- 49)"
      using pow2_mono [of "- 49" 0] by simp
    have "(1 - 2 powi (- 49)) * (valof r)\<^sup>2 \<le> (1 - 2 powi (- 49)) * (?hi ^ 5 * A)"
      using r_sq_hi small by (intro mult_left_mono) simp_all
    also have "\<dots> = (1 - 2 powi (- 49)) * ?hi ^ 5 * A" by simp
    also have "\<dots> \<le> ?lo ^ 4 * A"
      using macheps_numeric(2) A_nonneg by (intro mult_right_mono) simp_all
    also have "\<dots> = ?lo\<^sup>2 * A * ?lo\<^sup>2" by (simp add: power2_eq_square power_numeral_reduce)
    also have "\<dots> \<le> ?lo\<^sup>2 * A * ((valof t)\<^sup>2 * (valof r)\<^sup>2)"
      using tr_sq(1) A_nonneg by (intro mult_left_mono) simp_all
    also have "\<dots> = ?lo\<^sup>2 * (A * (valof t)\<^sup>2) * (valof r)\<^sup>2" by (simp add: algebra_simps)
    also have "\<dots> \<le> S * (valof r)\<^sup>2"
      using S_lo by (intro mult_right_mono) simp_all
    finally show ?thesis .
  qed
  have "S \<le> 1 + 2 powi (- 49)" "1 - 2 powi (- 49) \<le> S"
    using upper lower rr_pos by simp_all
  then have near: "\<bar>S - 1\<bar> \<le> 2 powi (- 49)" by linarith
  have val: "set_axis (a0, a1, a2) = (a0 * t, a1 * t, a2 * t)"
    by (simp add: set_axis_def t_def r_def s_def s1_def Let_def)
  show ?thesis
    unfolding val fst_conv snd_conv
    using prod [OF c0] prod [OF c1] prod [OF c2] near unfolding S_def by simp
qed

lemma rnd_small_values:
  "rnd 4 = Finite 4" "rnd 2 = Finite 2" "rnd (1 / 2) = Finite (1 / 2)" "rnd 1 = Finite 1"
  "rnd 9 = Finite 9" "rnd 16 = Finite 16" "rnd 25 = Finite 25" "rnd 5 = Finite 5"
proof -
  show "rnd 4 = Finite 4"
    by (rule rnd_exact [where e = 2 and m = 4503599627370496]) simp_all
  show "rnd 2 = Finite 2"
    by (rule rnd_exact [where e = 1 and m = 4503599627370496]) simp_all
  show "rnd (1 / 2) = Finite (1 / 2)"
    by (rule rnd_exact [where e = "- 1" and m = 4503599627370496]) (simp_all add: power_int_minus)
  show "rnd 1 = Finite 1"
    by (rule rnd_exact [where e = 0 and m = 4503599627370496]) (simp_all add: power_int_minus)
  show "rnd 9 = Finite 9"
    by (rule rnd_exact [where e = 3 and m = 5066549580791808]) simp_all
  show "rnd 16 = Finite 16"
    by (rule rnd_exact [where e = 4 and m = 4503599627370496]) simp_all
  show "rnd 25 = Finite 25"
    by (rule rnd_exact [where e = 4 and m = 7036874417766400]) simp_all
  show "rnd 5 = Finite 5"
    by (rule rnd_exact [where e = 2 and m = 5629499534213120]) simp_all
qed

lemma rnd_fifth: "rnd (1 / 5) = Finite (3602879701896397 / 18014398509481984)"
proof -
  have r: "round_even ((1 / 5) / 2 powi (- 3 - 52)) = 7205759403792794"
    by (rule round_even_eqI) (simp add: power_int_minus)
  have "rnd (1 / 5) = Finite (of_int 7205759403792794 * 2 powi (- 3 - 52))"
    by (rule rnd_value [OF _ _ _ r]) (simp_all add: power_int_minus)
  then show ?thesis by (simp add: power_int_minus)
qed

lemma rnd_three_fifths:
  "rnd (3 * (3602879701896397 / 18014398509481984)) = Finite (1351079888211149 / 2251799813685248)"
proof -
  have r: "round_even ((3 * (3602879701896397 / 18014398509481984)) / 2 powi (- 1 - 52))
             = 5404319552844596"
    by (subst round_even_tie [where f = 5404319552844595]) (simp_all add: power_int_minus)
  have "rnd (3 * (3602879701896397 / 18014398509481984))
          = Finite (of_int 5404319552844596 * 2 powi (- 1 - 52))"
    by (rule rnd_value [OF _ _ _ r]) (simp_all add: power_int_minus)
  then show ?thesis by (simp add: power_int_minus)
qed

lemma rnd_four_fifths:
  "rnd (4 * (3602879701896397 / 18014398509481984)) = Finite (3602879701896397 / 4503599627370496)"
  using rnd_exact [where e = "- 1" and m = 7205759403792794
      and x = "3602879701896397 / 4503599627370496"]
  by (simp add: power_int_minus)

lemma set_axis_3_4_0:
  "set_axis (Finite 3, Finite 4, 0)
     = (Finite (1351079888211149 / 2251799813685248), Finite (3602879701896397 / 4503599627370496),
        Finite 0)"
proof -
  have s: "sqrt 25 = 5" by (rule real_sqrt_unique) simp_all
  show ?thesis
    using rnd_small_values rnd_fifth rnd_three_fifths rnd_four_fifths
    by (simp add: set_axis_def Let_def double_ops s)
qed

lemma set_axis_0_0_2:
  "set_axis (0, 0, Finite 2) = (Finite 0, Finite 0, Finite 1)"
proof -
  have s: "sqrt 4 = 2" by (rule real_sqrt_unique) simp_all
  show ?thesis
    using rnd_small_values by (simp add: set_axis_def Let_def double_ops s)
qed

lemma set_axis_zero: "set_axis (0, 0, 0) = (NaN, NaN, NaN)"
  by (simp add: set_axis_def Let_def double_ops)

lemma set_axis_overflow:
  assumes "2 powi 512 \<le> x"
  shows "set_axis (Finite x, 0, 0) = (0, 0, 0)"
proof -
  have "0 < (2::real) powi 512" by simp
  then have x: "0 < x" using assms by linarith
  have "2 powi 512 * 2 powi 512 \<le> x * x"
    using assms by (intro mult_mono) simp_all
  then have "2 powi 1024 \<le> \<bar>x * x\<bar>" using pow2_mult [of 512 512] by simp
  then have "rnd (x * x) = infinity_of_sign (x * x < 0)" by (rule rnd_overflow)
  then have r: "rnd (x * x) = PlusInfinity" using x by (simp add: infinity_of_sign_def)
  have p: "Finite x * Finite x = PlusInfinity"
    using x r by (simp add: times_double_def fmul_def)
  have q: "(0 :: double) * 0 = 0" by (simp add: double_ops)
  have "1 / fsqrt (PlusInfinity + 0 + 0) = (0 :: double)" by (simp add: double_ops)
  then show ?thesis
    using x by (simp add: set_axis_def Let_def p q) (simp add: double_ops)
qed

lemma set_axis_underflow:
  assumes "0 < x" and "x \<le> 2 powi (- 538)"
  shows "set_axis (0, Finite x, 0) = (NaN, PlusInfinity, NaN)"
proof -
  have "x * x \<le> 2 powi (- 538) * 2 powi (- 538)"
    using assms by (intro mult_mono) simp_all
  also have "\<dots> = 2 powi (- 1076)" using pow2_mult [of "- 538" "- 538"] by simp
  also have "\<dots> < 2 powi (- 1075)" by (intro power_int_strict_increasing) simp_all
  finally have "\<bar>x * x\<bar> < 2 powi (- 1075)" using assms(1) by simp
  moreover have "x * x \<noteq> 0" using assms(1) by simp
  ultimately have "rnd (x * x) = zero_of_sign (x * x < 0)" by (intro rnd_underflow)
  then have r: "rnd (x * x) = Finite 0" using assms(1) by (simp add: zero_of_sign_def)
  have p: "Finite x * Finite x = 0"
    using assms(1) r by (simp add: times_double_def fmul_def zero_double_def)
  have q: "(0 :: double) * 0 = 0" by (simp add: double_ops)
  have t: "1 / fsqrt ((0 :: double) + 0 + 0) = PlusInfinity" by (simp add: double_ops)
  show ?thesis
    using assms(1) by (simp add: set_axis_def Let_def p q t) (simp add: double_ops)
qed

lemma bc_axis_set:
  "bc_axis (TACSBeamConstitutive_section a EA EI22 EI33 EI23 GJ kG22 kG33 kG23
              m00 m11 m22 m33 xm2 xm3 xc2 xc3 xk2 xk3 muS) = set_axis a"
  "bc_axis (TACSBeamConstitutive_diagonal rhoA rhoIy rhoIz rhoIyz EA' GJ' EIy EIz kGAy kGAz a)
     = set_axis a"
  "bc_axis (TACSBeamConstitutive_full this rho0 C0 (Some a)) = set_axis a"
  "bc_axis (setProperties this rho0 C0 (Some a)) = set_axis a"
  by (simp_all add: TACSBeamConstitutive_section_def TACSBeamConstitutive_diagonal_def
      TACSBeamConstitutive_full_def setProperties_def)

text \<open>
  C10, amended. After either property constructor, the constructor from the full stiffness or
  \<^verbatim>\<open>setProperties\<close>, called with an axis that is not null, whose components are finite, each a
  zero or of magnitude between \<open>2\<^sup>-\<^sup>5\<^sup>0\<^sup>0\<close> and \<open>2\<^sup>5\<^sup>0\<^sup>0\<close>, and not all zero, the stored axis is
  the given one scaled by \<^verbatim>\<open>tmp = 1.0/sqrt(...)\<close>, all in double arithmetic; its components
  are finite and the sum of their squares is 1 up to \<open>2\<^sup>-\<^sup>4\<^sup>9\<close>: a unit vector up to rounding.
  \<^verbatim>\<open>getProperties\<close> hands out the stored axis.
\<close>

theorem reference_axis_normalized:
  assumes "axis_component a0" and "axis_component a1" and "axis_component a2"
    and "(valof a0, valof a1, valof a2) \<noteq> (0, 0, 0)"
  shows "(let tmp = 1 / fsqrt (a0 * a0 + a1 * a1 + a2 * a2);
              b0 = a0 * tmp; b1 = a1 * tmp; b2 = a2 * tmp
          in bc_axis (TACSBeamConstitutive_section (a0, a1, a2) EA EI22 EI33 EI23 GJ kG22 kG33 kG23
                        m00 m11 m22 m33 xm2 xm3 xc2 xc3 xk2 xk3 muS) = (b0, b1, b2)
           \<and> bc_axis (TACSBeamConstitutive_diagonal rhoA rhoIy rhoIz rhoIyz EA' GJ' EIy EIz kGAy kGAz
                        (a0, a1, a2)) = (b0, b1, b2)
           \<and> bc_axis (TACSBeamConstitutive_full this rho0 C0 (Some (a0, a1, a2))) = (b0, b1, b2)
           \<and> bc_axis (setProperties this rho0 C0 (Some (a0, a1, a2))) = (b0, b1, b2)
           \<and> is_finite b0 \<and> is_finite b1 \<and> is_finite b2
           \<and> \<bar>(valof b0)\<^sup>2 + (valof b1)\<^sup>2 + (valof b2)\<^sup>2 - 1\<bar> \<le> 2 powi (- 49))
       \<and> snd (snd (getProperties obj rho1 C1 (Some axs1))) = Some (bc_axis obj)"
proof -
  have nz: "valof a0 \<noteq> 0 \<or> valof a1 \<noteq> 0 \<or> valof a2 \<noteq> 0" using assms(4) by simp
  note n = set_axis_near_unit [OF assms(1,2,3) nz]
  have v: "set_axis (a0, a1, a2)
        = (a0 * (1 / fsqrt (a0 * a0 + a1 * a1 + a2 * a2)),
           a1 * (1 / fsqrt (a0 * a0 + a1 * a1 + a2 * a2)),
           a2 * (1 / fsqrt (a0 * a0 + a1 * a1 + a2 * a2)))"
    by (simp add: set_axis_def Let_def)
  have g: "snd (snd (getProperties obj rho1 C1 (Some axs1))) = Some (bc_axis obj)"
    by (simp add: getProperties_def)
  show ?thesis
    unfolding Let_def bc_axis_set using n g unfolding v fst_conv snd_conv by simp
qed

text \<open>
  The axis \<open>(3, 4, 0)\<close> is stored, and handed out, as \<open>(0.6000000000000001, 0.8, 0)\<close>, of
  squared length \<open>1.0000000000000002\<close>.
\<close>

theorem reference_axis_normalized_witness:
  "axis_component (Finite 3) \<and> axis_component (Finite 4) \<and> axis_component 0
   \<and> (valof (Finite 3), valof (Finite 4), valof 0) \<noteq> (0, 0, 0)
   \<and> bc_axis (setProperties (TACSBeamConstitutive_diagonal 1 1 1 0 2 3 4 5 6 7 (1, 0, 0))
                 None None (Some (Finite 3, Finite 4, 0)))
       = (Finite (1351079888211149 / 2251799813685248),
          Finite (3602879701896397 / 4503599627370496), Finite 0)
   \<and> \<bar>(1351079888211149 / 2251799813685248)\<^sup>2 + (3602879701896397 / 4503599627370496)\<^sup>2
         + 0\<^sup>2 - 1\<bar> \<le> (2::real) powi (- 49)
   \<and> snd (snd (getProperties
                 (setProperties (TACSBeamConstitutive_diagonal 1 1 1 0 2 3 4 5 6 7 (1, 0, 0))
                    None None (Some (Finite 3, Finite 4, 0)))
                 None None (Some (NaN, NaN, NaN))))
       = Some (Finite (1351079888211149 / 2251799813685248),
               Finite (3602879701896397 / 4503599627370496), Finite 0)"
proof -
  have c3: "axis_component (Finite 3)" and c4: "axis_component (Finite 4)"
    and c0: "axis_component 0"
    by (simp_all add: axis_component_def zero_double_def power_int_minus)
  have nz: "(valof (Finite 3), valof (Finite 4), valof 0) \<noteq> (0, 0, 0)" by simp
  let ?base = "TACSBeamConstitutive_diagonal 1 1 1 0 2 3 4 5 6 7 (1, 0, 0)"
  let ?obj = "setProperties ?base None None (Some (Finite 3, Finite 4, 0))"
  note T = reference_axis_normalized
    [OF c3 c4 c0 nz, where this = ?base and ?rho0.0 = None and ?C0.0 = None and obj = ?obj
       and ?rho1.0 = None and ?C1.0 = None and ?axs1.0 = "(NaN, NaN, NaN)",
     unfolded Let_def]
  note v = set_axis_3_4_0 [unfolded set_axis_def Let_def prod.case]
  note T1 = T [THEN conjunct1]
  have v0: "Finite 3 * (1 / fsqrt (Finite 3 * Finite 3 + Finite 4 * Finite 4 + 0 * 0))
              = Finite (1351079888211149 / 2251799813685248)"
    and v1: "Finite 4 * (1 / fsqrt (Finite 3 * Finite 3 + Finite 4 * Finite 4 + 0 * 0))
              = Finite (3602879701896397 / 4503599627370496)"
    and v2: "0 * (1 / fsqrt (Finite 3 * Finite 3 + Finite 4 * Finite 4 + 0 * 0)) = Finite 0"
    using v by (simp_all only: prod.inject)
  have s: "bc_axis ?obj
       = (Finite (1351079888211149 / 2251799813685248),
          Finite (3602879701896397 / 4503599627370496), Finite 0)"
    using T1 [THEN conjunct2, THEN conjunct2, THEN conjunct2, THEN conjunct1]
    by (simp only: v)
  have b: "\<bar>(1351079888211149 / 2251799813685248)\<^sup>2 + (3602879701896397 / 4503599627370496)\<^sup>2
         + 0\<^sup>2 - 1\<bar> \<le> (2::real) powi (- 49)"
    using T1 [THEN conjunct2, THEN conjunct2, THEN conjunct2, THEN conjunct2, THEN conjunct2,
        THEN conjunct2, THEN conjunct2]
    by (simp only: v0 v1 v2 valof.simps)
  have g: "snd (snd (getProperties ?obj None None (Some (NaN, NaN, NaN)))) = Some (bc_axis ?obj)"
    by (rule T [THEN conjunct2])
  show ?thesis
    using c3 c4 c0 nz b g unfolding s by (intro conjI refl)
qed

text \<open>
  C10 as stated fails. For the zero vector the length is zero, the code divides by it, and
  the stored axis is not a number. For an axis as long as \<open>2\<^sup>6\<^sup>0\<^sup>0\<close> the squares overflow and
  the stored axis is the zero vector; for one as short as \<open>2\<^sup>-\<^sup>6\<^sup>0\<^sup>0\<close> they underflow to zero
  and the division is by zero again. And for the axis \<open>(3, 4, 0)\<close> the rounded components
  have a squared length that is not 1.
\<close>

theorem zero_axis_not_unit:
  "\<not> unit_axis (bc_axis (setProperties
        (TACSBeamConstitutive_diagonal 1 1 1 0 2 3 4 5 6 7 (1, 0, 0)) None None (Some (0, 0, 0))))
   \<and> bc_axis (TACSBeamConstitutive_diagonal 1 1 1 0 2 3 4 5 6 7 (0, 0, 0)) = (NaN, NaN, NaN)
   \<and> bc_axis (setProperties (TACSBeamConstitutive_diagonal 1 1 1 0 2 3 4 5 6 7 (1, 0, 0))
                 None None (Some (Finite (2 powi 600), 0, 0))) = (0, 0, 0)
   \<and> bc_axis (setProperties (TACSBeamConstitutive_diagonal 1 1 1 0 2 3 4 5 6 7 (1, 0, 0))
                 None None (Some (0, Finite (2 powi (- 600)), 0))) = (NaN, PlusInfinity, NaN)
   \<and> \<not> unit_axis (bc_axis (setProperties
          (TACSBeamConstitutive_diagonal 1 1 1 0 2 3 4 5 6 7 (1, 0, 0))
          None None (Some (Finite 3, Finite 4, 0))))"
proof -
  have a: "\<not> unit_axis (set_axis (0, 0, 0))"
    unfolding set_axis_zero by (simp add: unit_axis_def)
  have b: "set_axis (Finite (2 powi 600), 0, 0) = (0, 0, 0)"
    by (rule set_axis_overflow) (rule pow2_mono, simp)
  have c: "set_axis (0, Finite (2 powi (- 600)), 0) = (NaN, PlusInfinity, NaN)"
  proof (rule set_axis_underflow)
    show "0 < (2::real) powi (- 600)" by simp
    show "(2::real) powi (- 600) \<le> 2 powi (- 538)" by (rule pow2_mono) simp
  qed
  have d: "\<not> unit_axis (set_axis (Finite 3, Finite 4, 0))"
    unfolding set_axis_3_4_0 by (simp add: unit_axis_def power2_eq_square)
  show ?thesis
    unfolding bc_axis_set using a set_axis_zero b c d by (intro conjI)
qed
section \<open>Field-name queries\<close>

text \<open>
  C9. Outside the component range the name queries answer with the null sentinel:
  \<open>stressName i\<close> and \<open>strainName i\<close> are null for every \<open>i\<close> other than 0 and 1, and
  \<open>extraName i\<close> is null for every \<open>i\<close>.
\<close>

theorem name_queries_null_out_of_range:
  "i \<notin> {0, 1} \<Longrightarrow> stressName i = None \<and> strainName i = None \<and> extraName j = None"
  by (simp add: stressName_def strainName_def extraName_def)

theorem name_queries_null_out_of_range_witness:
  "(2::int) \<notin> {0, 1} \<and> stressName 2 = None \<and> strainName 2 = None \<and> extraName 0 = None"
  using name_queries_null_out_of_range [of 2 0] by simp

end
